theory Spec2Isabelle
  imports Main "HOL-Library.Word"
begin

unbundle bit_operations_syntax

section \<open>Busy/progress accounting (main.go)\<close>

text \<open>
  An unbuffered channel of \<^verbatim>\<open>uint64\<close>, \<^verbatim>\<open>make(chan uint64)\<close>, as the goroutine that sends on
  it sees it: the values that were received from it so far, oldest first, and the number of
  receive operations that the other goroutines of the program still perform on it. A send
  completes when a receive takes its value; with no receive left it blocks for ever.
\<close>

record Chan =
  taken :: "64 word list"
  receivers :: nat

definition send :: "Chan \<Rightarrow> 64 word \<Rightarrow> Chan option" where
  "send ch v =
     (if 0 < receivers ch then Some \<lparr> taken = taken ch @ [v], receivers = receivers ch - 1 \<rparr>
      else None)"

text \<open>
  \<^verbatim>\<open>type BusyState struct { changed chan uint64; busyCount uint64; busyCycle uint64 }\<close>.
  The two counters are 64-bit unsigned words updated with \<^verbatim>\<open>sync/atomic\<close>.
\<close>

record BusyState =
  changed :: Chan
  busyCount :: "64 word"
  busyCycle :: "64 word"

text \<open>\<^verbatim>\<open>func newBusyState() *BusyState\<close>: a channel just made, from which nothing receives yet.\<close>

definition newBusyState :: BusyState where
  "newBusyState = \<lparr> changed = \<lparr> taken = [], receivers = 0 \<rparr>, busyCount = 0, busyCycle = 0 \<rparr>"

text \<open>\<^verbatim>\<open>func (s *BusyState) count() int\<close>: the counter read as a Go \<^verbatim>\<open>int\<close> (64-bit, signed).\<close>

definition count :: "BusyState \<Rightarrow> int" where
  "count s = sint (busyCount s)"

text \<open>\<^verbatim>\<open>func (s *BusyState) reset()\<close>: \<^verbatim>\<open>atomic.StoreUint64(&s.busyCycle, 0)\<close>.\<close>

definition reset :: "BusyState \<Rightarrow> BusyState" where
  "reset s = s\<lparr> busyCycle := 0 \<rparr>"

text \<open>
  \<^verbatim>\<open>func (s *BusyState) inc() int\<close>: \<^verbatim>\<open>newCount := atomic.AddUint64(&s.busyCount, 1)\<close>, then
  the send \<^verbatim>\<open>s.changed <- newCount\<close>, then the reset of the cycle when \<^verbatim>\<open>1 == newCount\<close>,
  then \<^verbatim>\<open>return int(newCount)\<close>. The result is the returned \<^verbatim>\<open>int\<close>, \<open>None\<close> when the call
  blocks in the send and never returns, with the state that the call leaves.
\<close>

definition inc :: "BusyState \<Rightarrow> int option \<times> BusyState" where
  "inc s =
     (let newCount = busyCount s + 1;
          s1 = s\<lparr> busyCount := newCount \<rparr>
      in case send (changed s1) newCount of
           None \<Rightarrow> (None, s1)
         | Some ch \<Rightarrow>
             (let s2 = s1\<lparr> changed := ch \<rparr>
              in (Some (sint newCount), if 1 = newCount then reset s2 else s2)))"

text \<open>
  \<^verbatim>\<open>func (s *BusyState) dec() int\<close>: \<^verbatim>\<open>newCount := atomic.AddUint64(&s.busyCount, ^uint64(0))\<close>,
  then the send \<^verbatim>\<open>s.changed <- newCount\<close>, then the reset of the cycle when
  \<^verbatim>\<open>0 == newCount\<close>, then \<^verbatim>\<open>return int(newCount)\<close>.
\<close>

definition dec :: "BusyState \<Rightarrow> int option \<times> BusyState" where
  "dec s =
     (let newCount = busyCount s + NOT (0 :: 64 word);
          s1 = s\<lparr> busyCount := newCount \<rparr>
      in case send (changed s1) newCount of
           None \<Rightarrow> (None, s1)
         | Some ch \<Rightarrow>
             (let s2 = s1\<lparr> changed := ch \<rparr>
              in (Some (sint newCount), if 0 = newCount then reset s2 else s2)))"

text \<open>\<^verbatim>\<open>cycle()\<close> and \<^verbatim>\<open>next()\<close>: read and atomically increment the UI-cycle counter.\<close>

definition cycle :: "BusyState \<Rightarrow> int" where
  "cycle s = sint (busyCycle s)"

definition "next" :: "BusyState \<Rightarrow> BusyState" where
  "next s = s\<lparr> busyCycle := busyCycle s + 1 \<rparr>"

section \<open>Classification tables (media.go)\<close>

text \<open>
  Functions of the Go standard library that the repository calls are parameters of the
  model: \<^verbatim>\<open>strings.ToLower\<close>, \<^verbatim>\<open>filepath.Rel\<close> (\<open>None\<close> is its error result),
  and the order in which a \<^verbatim>\<open>range\<close> loop visits the entries of a map, which Go
  leaves unspecified (\<open>rangeOrder\<close> rearranges the entries of a table).
\<close>

record Env =
  ToLower :: "string \<Rightarrow> string"
  Rel :: "string \<Rightarrow> string \<Rightarrow> string option"
  rangeOrder :: "(string \<times> string list) list \<Rightarrow> (string \<times> string list) list"

text \<open>
  \<^verbatim>\<open>type ExtTable map[string][]string\<close>: type name to file-name extensions. The entries
  are listed in the order of the source text.
\<close>

type_synonym ExtTable = "(string \<times> string list) list"

text \<open>
  \<^verbatim>\<open>func kindOfFileExt(table *ExtTable, ext string) (string, bool)\<close>: the outer loop ranges
  over the entries of the map, the inner loop over the extensions of one entry; the first
  extension equal to \<^verbatim>\<open>ext\<close> returns the name of its entry and \<^verbatim>\<open>true\<close>.
\<close>

fun extIn :: "string list \<Rightarrow> string \<Rightarrow> bool" where
  "extIn [] ext = False"
| "extIn (e # l) ext = (if e = ext then True else extIn l ext)"

fun kindOfEntries :: "ExtTable \<Rightarrow> string \<Rightarrow> string \<times> bool" where
  "kindOfEntries [] ext = ('''', False)"
| "kindOfEntries ((n, l) # t) ext = (if extIn l ext then (n, True) else kindOfEntries t ext)"

definition kindOfFileExt :: "Env \<Rightarrow> ExtTable \<Rightarrow> string \<Rightarrow> string \<times> bool" where
  "kindOfFileExt E tbl ext = kindOfEntries (rangeOrder E tbl) ext"

text \<open>\<^verbatim>\<open>type MediaKind int\<close>, its constants counted from \<^verbatim>\<open>mkUnknown = iota - 1\<close>.\<close>

type_synonym MediaKind = int

definition mkUnknown :: MediaKind where "mkUnknown = - 1"

definition mkAudio :: MediaKind where "mkAudio = 0"

definition mkVideo :: MediaKind where "mkVideo = 1"

definition mkCOUNT :: MediaKind where "mkCOUNT = 2"

text \<open>\<^verbatim>\<open>type MediaSupportKind int\<close>, its constants counted from \<^verbatim>\<open>mskUnknown = iota - 1\<close>.\<close>

type_synonym MediaSupportKind = int

definition mskUnknown :: MediaSupportKind where "mskUnknown = - 1"

definition mskSubtitles :: MediaSupportKind where "mskSubtitles = 0"

text \<open>\<^verbatim>\<open>type MediaExt struct\<close> and \<^verbatim>\<open>type MediaSupportExt struct\<close>: a kind and its table.\<close>

record MediaExt =
  kind :: int
  table :: ExtTable

definition audioTable :: ExtTable where
  "audioTable =
    [(''3D Solar UK Ltd'', [''.ivs'']),
     (''ACT Lossy ADPCM'', [''.act'']),
     (''Adaptive Multi-Rate'', [''.amr'']),
     (''Adaptive Multi-Rate Wideband'', [''.awb'']),
     (''Advanced Audio Coding'', [''.aac'']),
     (''Apple AIFF'', [''.aiff'']),
     (''Audible Audiobook'', [''.aa'', ''.aax'']),
     (''Dialogic ADPCM'', [''.vox'']),
     (''Digital Speech Standard'', [''.dss'']),
     (''Electronic Arts IFF-8SVX'', [''.8svx'']),
     (''Free Lossless Audio Codec'', [''.flac'']),
     (''GSM Telephony'', [''.gsm'']),
     (''iKlax Media'', [''.iklax'']),
     (''Linear PCM'', [''.sln'']),
     (''Microsoft WAV'', [''.wav'']),
     (''Microsoft Windows Media Audio'', [''.wma'']),
     (''Monkey's Audio'', [''.ape'']),
     (''MPEG Layer III'', [''.mp3'']),
     (''MPEG-4 Part 14'', [''.m4a'', ''.m4b'']),
     (''Musepack/MPC/MPEG'', [''.mpc'']),
     (''NCH Dictation'', [''.dct'']),
     (''Nintendo (NES) Sound Format'', [''.nsf'']),
     (''Ogg Audio'', [''.oga'', ''.mogg'']),
     (''Opus'', [''.opus'']),
     (''RAW Audio Format'', [''.raw'']),
     (''RealAudio'', [''.ra'']),
     (''Samsung Yamaha Ringtone'', [''.mmf'']),
     (''Sony Compressed Voice'', [''.dvf'', ''.msv'']),
     (''Sun/Unix/Java Audio'', [''.au'']),
     (''True Audio Lossless'', [''.tta'']),
     (''WavPack'', [''.wv''])]"

definition videoTable :: ExtTable where
  "videoTable =
    [(''3GPP'', [''.3gp'']),
     (''3GPP2'', [''.3g2'']),
     (''Advanced Systems Format'', [''.asf'']),
     (''AMV video format'', [''.amv'']),
     (''Audio Video Interleave'', [''.avi'']),
     (''Dirac'', [''.drc'']),
     (''Flash Video'', [''.flv'', ''.f4v'', ''.f4p'', ''.f4a'', ''.f4b'']),
     (''Graphics Interchange Format Video'', [''.gifv'']),
     (''Material Exchange Format'', [''.mxf'']),
     (''Matroska'', [''.mkv'']),
     (''MPEG Transport Stream'', [''.mts'', ''.m2ts'']),
     (''MPEG-1'', [''.mp2'', ''.mpe'', ''.mpv'']),
     (''MPEG-1/MPEG-2'', [''.mpg'', ''.mpeg'']),
     (''MPEG-2'', [''.m2v'']),
     (''MPEG-4 Part 14'', [''.mp4'', ''.m4p'', ''.m4v'']),
     (''Multiple-image Network Graphics'', [''.mng'']),
     (''Nullsoft Streaming Video'', [''.nsv'']),
     (''Ogg Video'', [''.ogv'', ''.ogg'']),
     (''QuickTime File Format'', [''.mov'', ''.qt'']),
     (''Raw video format'', [''.yuv'']),
     (''RealMedia'', [''.rm'']),
     (''RealMedia Variable Bitrate'', [''.rmvb'']),
     (''RoQ FMV'', [''.roq'']),
     (''Standardized Video Interview'', [''.svi'']),
     (''Video Object'', [''.vob'']),
     (''WebM'', [''.webm'']),
     (''Windows Media Video'', [''.wmv''])]"

definition subsTable :: ExtTable where
  "subsTable =
    [(''AQTitle'', [''.aqt'']),
     (''CVD'', [''.cvd'']),
     (''DKS'', [''.dks'']),
     (''Gloss Subtitle'', [''.gsub'']),
     (''JACOSub'', [''.jss'']),
     (''MPL2'', [''.mpl'']),
     (''Phoenix Subtitle'', [''.pjs'']),
     (''PowerDivX'', [''.psb'']),
     (''RealText / SMIL'', [''.rt'']),
     (''SAMI'', [''.smi'']),
     (''SubRip'', [''.srt'']),
     (''SubStation Alpha'', [''.ssa'']),
     (''Advanced SubStation Alpha'', [''.ass'']),
     (''Structured Subtitle Format'', [''.ssf'']),
     (''Spruce subtitle format'', [''.stl'']),
     (''MicroDVD'', [''.sub'']),
     (''MPSub'', [''.sub'']),
     (''SubViewer'', [''.sub'']),
     (''VobSub'', [''.sub'', ''.idx'']),
     (''SVCD'', [''.svcd'']),
     (''MPEG-4 Timed Text'', [''.ttxt'']),
     (''Universal Subtitle Format'', [''.usf''])]"

definition audioExt :: MediaExt where
  "audioExt = \<lparr> kind = mkAudio, table = audioTable \<rparr>"

definition videoExt :: MediaExt where
  "videoExt = \<lparr> kind = mkVideo, table = videoTable \<rparr>"

definition subsExt :: MediaExt where
  "subsExt = \<lparr> kind = mskSubtitles, table = subsTable \<rparr>"

text \<open>
  The loop shared by the two lookups:
  \<^verbatim>\<open>for _, m := range []MediaExt{...} { if n, ok := kindOfFileExt(m.table, extLower); ok { return m.kind, n } }\<close>
  and then \<^verbatim>\<open>return unknown, ""\<close>.
\<close>

fun firstKind :: "Env \<Rightarrow> int \<Rightarrow> MediaExt list \<Rightarrow> string \<Rightarrow> int \<times> string" where
  "firstKind E unknown [] extLower = (unknown, '''')"
| "firstKind E unknown (m # ms) extLower =
     (case kindOfFileExt E (MediaExt.table m) extLower of
        (n, ok) \<Rightarrow> if ok then (MediaExt.kind m, n) else firstKind E unknown ms extLower)"

text \<open>\<^verbatim>\<open>func mediaKindOfFileExt(ext string) (MediaKind, string)\<close>.\<close>

definition mediaKindOfFileExt :: "Env \<Rightarrow> string \<Rightarrow> MediaKind \<times> string" where
  "mediaKindOfFileExt E ext =
     (let extLower = ToLower E ext
      in firstKind E mkUnknown [audioExt, videoExt] extLower)"

text \<open>\<^verbatim>\<open>func mediaSupportKindOfFileExt(ext string) (MediaSupportKind, string)\<close>.\<close>

definition mediaSupportKindOfFileExt :: "Env \<Rightarrow> string \<Rightarrow> MediaSupportKind \<times> string" where
  "mediaSupportKindOfFileExt E ext =
     (let extLower = ToLower E ext
      in firstKind E mskUnknown [subsExt] extLower)"

text \<open>Whether some entry of a table lists the extension, and the names of such entries.\<close>

definition inTable :: "ExtTable \<Rightarrow> string \<Rightarrow> bool" where
  "inTable t ext = list_ex (\<lambda>(n, l). extIn l ext) t"

definition namesOf :: "ExtTable \<Rightarrow> string \<Rightarrow> string list" where
  "namesOf t ext = map fst (filter (\<lambda>(n, l). extIn l ext) t)"

text \<open>A \<^verbatim>\<open>range\<close> visits the entries of a map in some order, each of them and no other.\<close>

definition rangeVisitsAll :: "Env \<Rightarrow> bool" where
  "rangeVisitsAll E \<longleftrightarrow> (\<forall>t. set (rangeOrder E t) = set t)"

text \<open>
  \<^verbatim>\<open>filepath.Rel(basepath, targpath)\<close> on Unix, for two rooted paths in the form that
  \<^verbatim>\<open>filepath.Clean\<close> returns, as are \<^verbatim>\<open>l.absPath\<close> and the paths that the traversal joins
  onto it. The elements of a path are its parts between slashes. Equal paths give
  \<^verbatim>\<open>"."\<close>; otherwise the result climbs with one \<^verbatim>\<open>".."\<close> for each element of the base
  after the common ones and then descends by the remaining elements of the target, so a
  target outside the base gets a path that starts with \<^verbatim>\<open>".."\<close> and no error. A rooted and
  an unrooted path cannot be made relative; two unrooted paths are taken through the same
  steps, with the base \<^verbatim>\<open>"."\<close> read as empty and an error when the first element of the
  base after the common ones is \<^verbatim>\<open>".."\<close>.
\<close>

fun elementsFrom :: "string \<Rightarrow> string \<Rightarrow> string list" where
  "elementsFrom [] acc = (if acc = [] then [] else [rev acc])"
| "elementsFrom (c # cs) acc =
     (if c = CHR ''/'' then (if acc = [] then [] else [rev acc]) @ elementsFrom cs []
      else elementsFrom cs (c # acc))"

definition elements :: "string \<Rightarrow> string list" where
  "elements p = (if p = ''.'' then [] else elementsFrom p [])"

definition rooted :: "string \<Rightarrow> bool" where
  "rooted p = (case p of [] \<Rightarrow> False | c # cs \<Rightarrow> c = CHR ''/'')"

fun dropCommon :: "string list \<Rightarrow> string list \<Rightarrow> string list \<times> string list" where
  "dropCommon (b # bs) (t # ts) = (if b = t then dropCommon bs ts else (b # bs, t # ts))"
| "dropCommon bs ts = (bs, ts)"

fun joinSlash :: "string list \<Rightarrow> string" where
  "joinSlash [] = []"
| "joinSlash [x] = x"
| "joinSlash (x # y # ys) = x @ ''/'' @ joinSlash (y # ys)"

definition filepath_Rel :: "string \<Rightarrow> string \<Rightarrow> string option" where
  "filepath_Rel base targ =
     (if targ = base then Some ''.''
      else if rooted base \<noteq> rooted targ then None
      else (case dropCommon (elements base) (elements targ) of
              (bs, ts) \<Rightarrow>
                if (case bs of [] \<Rightarrow> False | b # bs' \<Rightarrow> b = ''..'') then None
                else Some (joinSlash (map (\<lambda>b. ''..'') bs @ ts))))"

text \<open>
  A concrete environment for evaluation: ASCII lower-casing, \<^verbatim>\<open>filepath.Rel\<close> as above,
  and maps visited in the order of the source.
\<close>

definition asciiLower :: "char \<Rightarrow> char" where
  "asciiLower c =
     (case map_of (zip ''ABCDEFGHIJKLMNOPQRSTUVWXYZ'' ''abcdefghijklmnopqrstuvwxyz'') c of
        None \<Rightarrow> c | Some d \<Rightarrow> d)"

definition testEnv :: Env where
  "testEnv = \<lparr> ToLower = map asciiLower, Rel = filepath_Rel, rangeOrder = (\<lambda>t. t) \<rparr>"

section \<open>Entity model (media.go)\<close>

text \<open>
  \<^verbatim>\<open>time.Time\<close> is an instant, here an integer; \<open>zeroTime\<close> is \<^verbatim>\<open>time.Time{}\<close>.
  A \<^verbatim>\<open>float64\<close> is carried as its 64 bits; no arithmetic is done on it.
\<close>

type_synonym Time = int

definition zeroTime :: Time where "zeroTime = 0"

type_synonym float64 = "64 word"

text \<open>
  The dynamic values an \<^verbatim>\<open>interface{}\<close> holds in this program, one constructor for
  each dynamic type, and \<^verbatim>\<open>type Subtitles struct\<close>, whose \<^verbatim>\<open>sysInfo\<close> field is such
  a value.
\<close>

datatype Value =
    VNil
  | VString string
  | VInt "64 word"
  | VInt64 "64 word"
  | VFloat64 float64
  | VFileMode "32 word"
  | VMediaKind MediaKind
  | VTime Time
  | VSys nat
  | VSubtitles Subtitles
  | VSubtitlesSlice "Subtitles list"
  | VSlice "Value list"
and Subtitles =
    Subtitles (absPath: string) (relPath: string) (size: "64 word") (mode: "32 word")
      (timeModified: Time) (sysInfo: Value) (ext: string) (extName: string)

text \<open>\<^verbatim>\<open>Subtitles{}\<close>, the zero value.\<close>

definition zeroSubtitles :: Subtitles where
  "zeroSubtitles = Subtitles [] [] 0 0 zeroTime VNil [] []"

text \<open>\<^verbatim>\<open>type Media struct\<close>.\<close>

record Media =
  absPath :: string
  relPath :: string
  size :: "64 word"
  mode :: "32 word"
  timeModified :: Time
  sysInfo :: Value
  kind :: MediaKind
  ext :: string
  extName :: string
  name :: string
  timeAdded :: Time
  playbackCommand :: string
  title :: string
  description :: string
  releaseDate :: Time

text \<open>
  \<^verbatim>\<open>type AudioMedia struct { *Media; album string; track int }\<close> and
  \<^verbatim>\<open>type VideoMedia struct { *Media; knownSubtitles []Subtitles; subtitles Subtitles }\<close>:
  the embedded \<^verbatim>\<open>Media\<close> is the parent record.
\<close>

record AudioMedia = Media +
  album :: string
  track :: "64 word"

record VideoMedia = Media +
  knownSubtitles :: "Subtitles list"
  subtitles :: Subtitles

text \<open>\<^verbatim>\<open>type MediaRecord map[string]interface{}\<close>.\<close>

type_synonym MediaRecord = "string \<rightharpoonup> Value"

text \<open>
  \<^verbatim>\<open>os.FileInfo\<close> as returned by \<^verbatim>\<open>os.Lstat\<close>: what \<^verbatim>\<open>Name()\<close>, \<^verbatim>\<open>Size()\<close>,
  \<^verbatim>\<open>Mode()\<close>, \<^verbatim>\<open>ModTime()\<close> and \<^verbatim>\<open>Sys()\<close> return.
\<close>

record FileInfo =
  fiName :: string
  fiSize :: "64 word"
  fiMode :: "32 word"
  fiModTime :: Time
  fiSys :: Value

text \<open>
  \<^verbatim>\<open>func newMedia(lib, absPath, relPath, kind, ext, extName, info) *Media\<close>; \<open>now\<close> is
  what \<^verbatim>\<open>time.Now()\<close> returns.
\<close>

definition newMedia ::
  "Time \<Rightarrow> string \<Rightarrow> string \<Rightarrow> MediaKind \<Rightarrow> string \<Rightarrow> string \<Rightarrow> FileInfo \<Rightarrow> Media" where
  "newMedia now absPath' relPath' kind' ext' extName' info =
     \<lparr> Media.absPath = absPath',
       relPath = relPath',
       size = fiSize info,
       mode = fiMode info,
       timeModified = fiModTime info,
       sysInfo = fiSys info,
       kind = kind',
       ext = ext',
       extName = extName',
       name = fiName info,
       timeAdded = now,
       playbackCommand = ''--'',
       title = fiName info,
       description = ''--'',
       releaseDate = zeroTime \<rparr>"

text \<open>\<^verbatim>\<open>func newAudioMedia(...) *AudioMedia\<close>: album \<^verbatim>\<open>""\<close>, track \<^verbatim>\<open>-1\<close>.\<close>

definition newAudioMedia ::
  "Time \<Rightarrow> string \<Rightarrow> string \<Rightarrow> string \<Rightarrow> string \<Rightarrow> FileInfo \<Rightarrow> AudioMedia" where
  "newAudioMedia now absPath' relPath' ext' extName' info =
     Media.extend (newMedia now absPath' relPath' mkAudio ext' extName' info)
       (AudioMedia.fields [] (- 1))"

text \<open>
  \<^verbatim>\<open>func newVideoMedia(...) *VideoMedia\<close>: no known subtitles, \<^verbatim>\<open>Subtitles{}\<close> selected.
\<close>

definition newVideoMedia ::
  "Time \<Rightarrow> string \<Rightarrow> string \<Rightarrow> string \<Rightarrow> string \<Rightarrow> FileInfo \<Rightarrow> VideoMedia" where
  "newVideoMedia now absPath' relPath' ext' extName' info =
     Media.extend (newMedia now absPath' relPath' mkVideo ext' extName' info)
       (VideoMedia.fields [] zeroSubtitles)"

text \<open>\<^verbatim>\<open>func newSubtitles(lib, absPath, relPath, ext, extName, info) *Subtitles\<close>.\<close>

definition newSubtitles :: "string \<Rightarrow> string \<Rightarrow> string \<Rightarrow> string \<Rightarrow> FileInfo \<Rightarrow> Subtitles" where
  "newSubtitles absPath' relPath' ext' extName' info =
     Subtitles absPath' relPath' (fiSize info) (fiMode info) (fiModTime info) (fiSys info)
       ext' extName'"

text \<open>The fifteen entries that both \<^verbatim>\<open>toRecord()\<close> methods write for the embedded \<^verbatim>\<open>Media\<close>.\<close>

definition mediaEntries :: "'a Media_scheme \<Rightarrow> (string \<times> Value) list" where
  "mediaEntries m =
     [(''absPath'', VString (Media.absPath m)),
      (''relPath'', VString (Media.relPath m)),
      (''size'', VInt64 (Media.size m)),
      (''mode'', VFileMode (Media.mode m)),
      (''timeModified'', VTime (Media.timeModified m)),
      (''sysInfo'', Media.sysInfo m),
      (''kind'', VMediaKind (Media.kind m)),
      (''ext'', VString (Media.ext m)),
      (''extName'', VString (Media.extName m)),
      (''name'', VString (name m)),
      (''timeAdded'', VTime (timeAdded m)),
      (''playbackCommand'', VString (playbackCommand m)),
      (''title'', VString (title m)),
      (''description'', VString (description m)),
      (''releaseDate'', VTime (releaseDate m))]"

text \<open>\<^verbatim>\<open>func (m *AudioMedia) toRecord() *MediaRecord\<close>.\<close>

definition AudioMedia_toRecord :: "AudioMedia \<Rightarrow> MediaRecord" where
  "AudioMedia_toRecord m =
     map_of (mediaEntries m @
       [(''album'', VString (album m)),
        (''track'', VInt (track m))])"

text \<open>\<^verbatim>\<open>func (m *VideoMedia) toRecord() *MediaRecord\<close>.\<close>

definition VideoMedia_toRecord :: "VideoMedia \<Rightarrow> MediaRecord" where
  "VideoMedia_toRecord m =
     map_of (mediaEntries m @
       [(''knownSubtitles'', VSubtitlesSlice (knownSubtitles m)),
        (''subtitles'', VSubtitles (subtitles m))])"

text \<open>
  A type assertion \<^verbatim>\<open>v.(T)\<close> without the comma-ok form panics when the dynamic type of
  \<^verbatim>\<open>v\<close> is not \<^verbatim>\<open>T\<close>. The panic names the record key whose value was asserted.
\<close>

datatype Panic = TypeAssertion string

definition asString :: "string \<Rightarrow> Value \<Rightarrow> Panic + string" where
  "asString k v = (case v of VString s \<Rightarrow> Inr s | _ \<Rightarrow> Inl (TypeAssertion k))"

definition asFloat64 :: "string \<Rightarrow> Value \<Rightarrow> Panic + float64" where
  "asFloat64 k v = (case v of VFloat64 x \<Rightarrow> Inr x | _ \<Rightarrow> Inl (TypeAssertion k))"

definition asInt :: "string \<Rightarrow> Value \<Rightarrow> Panic + 64 word" where
  "asInt k v = (case v of VInt i \<Rightarrow> Inr i | _ \<Rightarrow> Inl (TypeAssertion k))"

definition asSlice :: "string \<Rightarrow> Value \<Rightarrow> Panic + Value list" where
  "asSlice k v = (case v of VSlice l \<Rightarrow> Inr l | _ \<Rightarrow> Inl (TypeAssertion k))"

definition asSubtitles :: "string \<Rightarrow> Value \<Rightarrow> Panic + Subtitles" where
  "asSubtitles k v = (case v of VSubtitles s \<Rightarrow> Inr s | _ \<Rightarrow> Inl (TypeAssertion k))"

text \<open>
  Conversions that \<^verbatim>\<open>fromRecord()\<close> applies to a \<^verbatim>\<open>float64\<close> or a string, taken as
  parameters: \<^verbatim>\<open>int64(x)\<close>, \<^verbatim>\<open>os.FileMode(x)\<close>, \<^verbatim>\<open>MediaKind(x)\<close>, and
  \<^verbatim>\<open>t, _ := time.Parse(defaultTimeLayout, s)\<close> (the layout constant is declared outside
  the sources at hand; the error is dropped, so the result is a \<^verbatim>\<open>Time\<close> in every case).
\<close>

record Conv =
  toInt64 :: "float64 \<Rightarrow> 64 word"
  toFileMode :: "float64 \<Rightarrow> 32 word"
  toMediaKind :: "float64 \<Rightarrow> MediaKind"
  parseTime :: "string \<Rightarrow> Time"

text \<open>
  One step of \<^verbatim>\<open>fromRecord()\<close>: \<^verbatim>\<open>v, ok = r[key]; if ok { ... v.(T) ... }\<close>. A missing key
  leaves the entity as it is; a present key is asserted to its type and stored.
\<close>

definition onKey :: "MediaRecord \<Rightarrow> string \<Rightarrow> (Value \<Rightarrow> 'm \<Rightarrow> Panic + 'm) \<Rightarrow> 'm \<Rightarrow> Panic + 'm" where
  "onKey r k f m = (case r k of None \<Rightarrow> Inr m | Some v \<Rightarrow> f v m)"

definition stringKey :: "MediaRecord \<Rightarrow> string \<Rightarrow> (string \<Rightarrow> 'm \<Rightarrow> 'm) \<Rightarrow> 'm \<Rightarrow> Panic + 'm" where
  "stringKey r k upd = onKey r k (\<lambda>v m. case asString k v of Inl p \<Rightarrow> Inl p | Inr s \<Rightarrow> Inr (upd s m))"

definition floatKey :: "MediaRecord \<Rightarrow> string \<Rightarrow> (float64 \<Rightarrow> 'm \<Rightarrow> 'm) \<Rightarrow> 'm \<Rightarrow> Panic + 'm" where
  "floatKey r k upd = onKey r k (\<lambda>v m. case asFloat64 k v of Inl p \<Rightarrow> Inl p | Inr x \<Rightarrow> Inr (upd x m))"

text \<open>The statements of a method body in sequence; a panic ends the sequence.\<close>

fun runSteps :: "('m \<Rightarrow> Panic + 'm) list \<Rightarrow> 'm \<Rightarrow> Panic + 'm" where
  "runSteps [] m = Inr m"
| "runSteps (step # steps) m = (case step m of Inl p \<Rightarrow> Inl p | Inr m' \<Rightarrow> runSteps steps m')"

text \<open>
  The fifteen steps that both \<^verbatim>\<open>fromRecord()\<close> methods take for the embedded \<^verbatim>\<open>Media\<close>,
  in the order of the source.
\<close>

definition mediaSteps :: "Conv \<Rightarrow> MediaRecord \<Rightarrow> ('a Media_scheme \<Rightarrow> Panic + 'a Media_scheme) list" where
  "mediaSteps C r =
     [stringKey r ''absPath'' (\<lambda>s m. m\<lparr> Media.absPath := s \<rparr>),
      stringKey r ''relPath'' (\<lambda>s m. m\<lparr> Media.relPath := s \<rparr>),
      floatKey r ''size'' (\<lambda>x m. m\<lparr> Media.size := toInt64 C x \<rparr>),
      floatKey r ''mode'' (\<lambda>x m. m\<lparr> Media.mode := toFileMode C x \<rparr>),
      stringKey r ''timeModified'' (\<lambda>s m. m\<lparr> Media.timeModified := parseTime C s \<rparr>),
      onKey r ''sysInfo'' (\<lambda>v m. Inr (m\<lparr> Media.sysInfo := v \<rparr>)),
      floatKey r ''kind'' (\<lambda>x m. m\<lparr> Media.kind := toMediaKind C x \<rparr>),
      stringKey r ''ext'' (\<lambda>s m. m\<lparr> Media.ext := s \<rparr>),
      stringKey r ''extName'' (\<lambda>s m. m\<lparr> Media.extName := s \<rparr>),
      stringKey r ''name'' (\<lambda>s m. m\<lparr> name := s \<rparr>),
      stringKey r ''timeAdded'' (\<lambda>s m. m\<lparr> timeAdded := parseTime C s \<rparr>),
      stringKey r ''playbackCommand'' (\<lambda>s m. m\<lparr> playbackCommand := s \<rparr>),
      stringKey r ''title'' (\<lambda>s m. m\<lparr> title := s \<rparr>),
      stringKey r ''description'' (\<lambda>s m. m\<lparr> description := s \<rparr>),
      stringKey r ''releaseDate'' (\<lambda>s m. m\<lparr> releaseDate := parseTime C s \<rparr>)]"

text \<open>
  \<^verbatim>\<open>func (m *AudioMedia) fromRecord(r MediaRecord)\<close>. The receiver \<open>m\<close> has its embedded
  \<^verbatim>\<open>Media\<close> in place (a nil one is replaced by \<^verbatim>\<open>&Media{}\<close> first). \<open>Inl\<close> is a panic.
\<close>

definition AudioMedia_fromRecord :: "Conv \<Rightarrow> AudioMedia \<Rightarrow> MediaRecord \<Rightarrow> Panic + AudioMedia" where
  "AudioMedia_fromRecord C m r =
     runSteps (mediaSteps C r @
       [stringKey r ''album'' (\<lambda>s m. m\<lparr> album := s \<rparr>),
        onKey r ''track'' (\<lambda>v m. case asInt ''track'' v of Inl p \<Rightarrow> Inl p
                                   | Inr i \<Rightarrow> Inr (m\<lparr> track := i \<rparr>))]) m"

text \<open>
  The loop \<^verbatim>\<open>for _, s := range v.([]interface{}) { subs = append(subs, s.(Subtitles)) }\<close>.
\<close>

fun subtitlesOf :: "Value list \<Rightarrow> Panic + Subtitles list" where
  "subtitlesOf [] = Inr []"
| "subtitlesOf (s # l) =
     (case asSubtitles ''knownSubtitles'' s of
        Inl p \<Rightarrow> Inl p
      | Inr x \<Rightarrow> (case subtitlesOf l of Inl p \<Rightarrow> Inl p | Inr xs \<Rightarrow> Inr (x # xs)))"

text \<open>
  \<^verbatim>\<open>func (m *VideoMedia) fromRecord(r MediaRecord)\<close>. Its last step reads \<^verbatim>\<open>r["subtitles"]\<close>
  and does nothing with it: the assignment is commented out in the source.
\<close>

definition VideoMedia_fromRecord :: "Conv \<Rightarrow> VideoMedia \<Rightarrow> MediaRecord \<Rightarrow> Panic + VideoMedia" where
  "VideoMedia_fromRecord C m r =
     runSteps (mediaSteps C r @
       [onKey r ''knownSubtitles'' (\<lambda>v m. case asSlice ''knownSubtitles'' v of Inl p \<Rightarrow> Inl p
            | Inr l \<Rightarrow> (case subtitlesOf l of Inl p \<Rightarrow> Inl p
                        | Inr subs \<Rightarrow> Inr (m\<lparr> knownSubtitles := subs \<rparr>))),
        onKey r ''subtitles'' (\<lambda>v m. Inr m)]) m"

text \<open>Entities and a conversion table for evaluation.\<close>

definition testInfo :: FileInfo where
  "testInfo = \<lparr> fiName = ''a.mp3'', fiSize = 4096, fiMode = 420, fiModTime = 1538000000,
                fiSys = VNil \<rparr>"

definition testConv :: Conv where
  "testConv = \<lparr> toInt64 = (\<lambda>x. 0), toFileMode = (\<lambda>x. 0), toMediaKind = (\<lambda>x. 0),
                parseTime = (\<lambda>s. zeroTime) \<rparr>"

definition testAudio :: AudioMedia where
  "testAudio = newAudioMedia 1538000100 ''/lib/a.mp3'' ''a.mp3'' ''.mp3'' ''MPEG Layer III'' testInfo"

definition testVideo :: VideoMedia where
  "testVideo = newVideoMedia 1538000100 ''/lib/b.mkv'' ''b.mkv'' ''.mkv'' ''Matroska''
                 (testInfo\<lparr> fiName := ''b.mkv'' \<rparr>)"

definition zeroMedia :: Media where
  "zeroMedia = \<lparr> Media.absPath = [], relPath = [], size = 0, mode = 0, timeModified = zeroTime,
                 sysInfo = VNil, kind = 0, ext = [], extName = [], name = [], timeAdded = zeroTime,
                 playbackCommand = [], title = [], description = [], releaseDate = zeroTime \<rparr>"

definition zeroAudio :: AudioMedia where
  "zeroAudio = Media.extend zeroMedia (AudioMedia.fields [] 0)"

definition zeroVideo :: VideoMedia where
  "zeroVideo = Media.extend zeroMedia (VideoMedia.fields [] zeroSubtitles)"

section \<open>Return codes, entity classes and the document store\<close>

text \<open>
  The \<^verbatim>\<open>*ReturnCode\<close> values that library.go and main.go name. The type is declared
  outside the sources at hand; a code stands for the value that \<^verbatim>\<open>rcX.specf(...)\<close> builds,
  its message is left out.
\<close>

datatype ReturnCode =
    rcInvalidPath
  | rcInvalidStat
  | rcDirDepth
  | rcDirOpen
  | rcInvalidFile
  | rcDatabaseError
  | rcLibraryBusy
  | rcInvalidLibrary
  | rcDuplicateLibrary
  | rcInvalidConfig
  | rcInvalidArgs
  | rcUsage
  | rcOK

text \<open>
  Modelled from the spec: \<^verbatim>\<open>type EntityClass\<close> is declared outside the sources at hand.
  library.go compares \<^verbatim>\<open>class != ecUnknown && class < ecCOUNT\<close> and indexes a two-element
  array by it, \<^verbatim>\<open>ecMedia\<close> first, \<^verbatim>\<open>ecSupport\<close> second; \<^verbatim>\<open>ecUnknown\<close> is the sentinel.
\<close>

type_synonym EntityClass = int

definition ecUnknown :: EntityClass where "ecUnknown = - 1"

definition ecMedia :: EntityClass where "ecMedia = 0"

definition ecSupport :: EntityClass where "ecSupport = 1"

definition ecCOUNT :: EntityClass where "ecCOUNT = 2"

text \<open>
  library.go names the support kind \<^verbatim>\<open>skSubtitles\<close> and the lookup
  \<^verbatim>\<open>supportKindOfFileExt\<close>; media.go declares them as \<^verbatim>\<open>mskSubtitles\<close> and
  \<^verbatim>\<open>mediaSupportKindOfFileExt\<close>.
\<close>

definition skSubtitles :: MediaSupportKind where "skSubtitles = mskSubtitles"

definition supportKindOfFileExt :: "Env \<Rightarrow> string \<Rightarrow> MediaSupportKind \<times> string" where
  "supportKindOfFileExt E x = mediaSupportKindOfFileExt E x"

text \<open>\<^verbatim>\<open>mxPath MediaIndexID = iota\<close> and \<^verbatim>\<open>mediaIndex = [mxCOUNT]MediaIndex{{"absPath"}}\<close>.\<close>

definition mxPath :: nat where "mxPath = 0"

definition mediaIndex :: "string list list" where
  "mediaIndex = [[''absPath'']]"

text \<open>
  Modelled from the spec: \<^verbatim>\<open>sxPath\<close> and the index table of the support class are declared
  outside the sources at hand. The spec has one indexed path field per collection, so they
  repeat the media ones.
\<close>

definition sxPath :: nat where "sxPath = 0"

definition supportIndex :: "string list list" where
  "supportIndex = [[''absPath'']]"

text \<open>
  Modelled from the spec: a document collection of the index gateway. It holds the inserted
  records with their identifiers in insertion order. \<open>writable\<close> says whether an insert
  goes through (it fails on an I/O or serialization error), \<open>indexed\<close> lists the fields
  that have an index (a query on another field fails).
\<close>

record Collection =
  docs :: "(nat \<times> MediaRecord) list"
  writable :: bool
  indexed :: "string list"

datatype StoreError = InsertFailed | NoIndex string | UnrecognizedClass EntityClass | IndexOutOfRange

text \<open>
  Modelled from the spec: insert a record, returning the identifier the store assigns. No
  record is ever deleted here, so the number of stored records is a fresh identifier.
\<close>

definition Insert :: "Collection \<Rightarrow> MediaRecord \<Rightarrow> StoreError + (nat \<times> Collection)" where
  "Insert c r =
     (if writable c
      then Inr (length (docs c), c\<lparr> docs := docs c @ [(length (docs c), r)] \<rparr>)
      else Inl InsertFailed)"

text \<open>
  Modelled from the spec: the equality query \<^verbatim>\<open>{"eq": value, "in": [field]}\<close>, returning
  the identifiers of the records whose field holds the value.
\<close>

definition EvalQuery :: "Collection \<Rightarrow> string \<Rightarrow> Value \<Rightarrow> StoreError + nat list" where
  "EvalQuery c field v =
     (if field \<in> set (indexed c)
      then Inr (map fst (filter (\<lambda>(i, r). r field = Some v) (docs c)))
      else Inl (NoIndex field))"

text \<open>
  Modelled from the spec: \<^verbatim>\<open>type Database\<close> is declared outside the sources at hand.
  library.go reads \<^verbatim>\<open>db.col[class][kind]\<close>, \<^verbatim>\<open>db.index[class][index]\<close>,
  \<^verbatim>\<open>db.numRecordsLoad\<close> and \<^verbatim>\<open>db.numRecordsScan[class][kind]\<close>.
\<close>

record Database =
  col :: "EntityClass \<Rightarrow> int \<Rightarrow> Collection"
  numRecordsLoad :: "EntityClass \<Rightarrow> int \<Rightarrow> nat"
  numRecordsScan :: "EntityClass \<Rightarrow> int \<Rightarrow> nat"

definition dbIndex :: "EntityClass \<Rightarrow> string list list" where
  "dbIndex c = (if c = ecMedia then mediaIndex else supportIndex)"

text \<open>Modelled from the spec: the kinds of a class, audio and video for media, subtitles for support.\<close>

definition kindsOf :: "EntityClass \<Rightarrow> int list" where
  "kindsOf c = (if c = ecMedia then [mkAudio, mkVideo] else if c = ecSupport then [skSubtitles] else [])"

text \<open>\<^verbatim>\<open>type DiscoveryMethod int\<close>.\<close>

datatype DiscoveryMethod = dmLoad | dmScan

text \<open>
  Modelled from the spec: the total of \<^verbatim>\<open>(*Database).totalRecordsString(method, -1, -1)\<close>,
  the records counted for a discovery method over all collections.
\<close>

definition totalRecords :: "Database \<Rightarrow> DiscoveryMethod \<Rightarrow> nat" where
  "totalRecords d dm =
     (let n = (case dm of dmLoad \<Rightarrow> numRecordsLoad d | dmScan \<Rightarrow> numRecordsScan d)
      in n ecMedia mkAudio + n ecMedia mkVideo + n ecSupport skSubtitles)"

text \<open>
  Modelled from the spec: the record of a subtitle entity. media.go holds no
  \<^verbatim>\<open>toRecord()\<close> for \<^verbatim>\<open>Subtitles\<close>; the spec gives it the common attributes only.
\<close>

definition Subtitles_toRecord :: "Subtitles \<Rightarrow> MediaRecord" where
  "Subtitles_toRecord s =
     map_of
       [(''absPath'', VString (Subtitles.absPath s)),
        (''relPath'', VString (Subtitles.relPath s)),
        (''size'', VInt64 (Subtitles.size s)),
        (''mode'', VFileMode (Subtitles.mode s)),
        (''timeModified'', VTime (Subtitles.timeModified s)),
        (''sysInfo'', Subtitles.sysInfo s),
        (''ext'', VString (Subtitles.ext s)),
        (''extName'', VString (Subtitles.extName s))]"

section \<open>Libraries and the program state (library.go)\<close>

text \<open>
  \<^verbatim>\<open>type Library struct\<close>. The buffered channels \<^verbatim>\<open>loadStart\<close> and \<^verbatim>\<open>scanStart\<close> are the
  lists of the values they hold, oldest first; their capacity is \<^verbatim>\<open>maxLibraryScanners\<close>.
  The fields that library.go does not read in \<^verbatim>\<open>load()\<close> and \<^verbatim>\<open>scan()\<close> are left out.
\<close>

record Library =
  absPath :: string
  name :: string
  maxDepth :: nat
  db :: Database
  loadStart :: "Time list"
  loadElapsed :: int
  scanStart :: "Time list"
  scanElapsed :: int
  lastScan :: Time

definition depthUnlimited :: nat where "depthUnlimited = 0"

definition maxLibraryScanners :: nat where "maxLibraryScanners = 1"

text \<open>
  \<^verbatim>\<open>type PathHandler struct { handleMedia, handleSupport, handleOther PathHandlerFunc }\<close>:
  a field says whether the slot holds a function. A call of a handler is recorded as an event.
\<close>

record PathHandler =
  handleMedia :: bool
  handleSupport :: bool
  handleOther :: bool

text \<open>
  What the traversal and the loader do to the world outside the library: the calls of
  \<^verbatim>\<open>os.Lstat\<close> (with the depth of the \<^verbatim>\<open>scanDive\<close> call), of \<^verbatim>\<open>os.Open\<close> on a directory,
  of \<^verbatim>\<open>db.EvalQuery\<close> and \<^verbatim>\<open>Insert\<close>, of the three handlers, of \<^verbatim>\<open>warnLog.trace\<close> on a
  child's error, and of \<^verbatim>\<open>findCandidates\<close>.
\<close>

datatype Event =
    EvLstat string nat
  | EvOpenDir string
  | EvQuery EntityClass int string
  | EvInsert EntityClass int string
  | EvMedia string nat
  | EvSupport string nat
  | EvOther string
  | EvWarn ReturnCode
  | EvCandidates nat

text \<open>
  The state that \<^verbatim>\<open>load()\<close> and \<^verbatim>\<open>scan()\<close> work on: the library behind the pointer \<^verbatim>\<open>l\<close>,
  the shared \<^verbatim>\<open>BusyState\<close>, the global \<^verbatim>\<open>isCLIMode\<close>, the events so far, and the number of
  times the clock has been read.
\<close>

record State =
  lib :: Library
  busy :: BusyState
  isCLIMode :: bool
  trace :: "Event list"
  ticks :: nat

text \<open>
  What the environment supplies to the traversal: the successive readings of the clock, and
  the parts of the newer entity code that library.go calls and media.go does not hold: the
  error result of the two-valued \<^verbatim>\<open>toRecord()\<close>, the length of \<^verbatim>\<open>subs.KnownVideoMedia\<close> of a
  stored subtitle record, and \<^verbatim>\<open>(*Subtitles).findCandidates\<close>, which returns the number of
  candidates found or an error and may update the database.
\<close>

record World =
  clock :: "nat \<Rightarrow> Time"
  toRecordErr :: "MediaRecord \<Rightarrow> ReturnCode option"
  knownVideoMedia :: "MediaRecord \<Rightarrow> nat"
  findCandidates :: "Database \<Rightarrow> nat \<Rightarrow> MediaRecord \<Rightarrow> (ReturnCode + nat) \<times> Database"

text \<open>\<^verbatim>\<open>time.Now()\<close>: the next reading of the clock.\<close>

definition time_Now :: "World \<Rightarrow> State \<Rightarrow> Time \<times> State" where
  "time_Now W s = (clock W (ticks s), s\<lparr> ticks := ticks s + 1 \<rparr>)"

definition emit :: "Event \<Rightarrow> State \<Rightarrow> State" where
  "emit e s = s\<lparr> trace := trace s @ [e] \<rparr>"

text \<open>The state with another database behind \<^verbatim>\<open>l.db\<close>.\<close>

definition withDb :: "Database \<Rightarrow> State \<Rightarrow> State" where
  "withDb d s = s\<lparr> lib := (lib s)\<lparr> db := d \<rparr> \<rparr>"

text \<open>The collection \<^verbatim>\<open>l.db.col[class][kind]\<close> and its replacement after an insert.\<close>

definition colOf :: "State \<Rightarrow> EntityClass \<Rightarrow> int \<Rightarrow> Collection" where
  "colOf s c k = col (db (lib s)) c k"

definition setCol :: "EntityClass \<Rightarrow> int \<Rightarrow> Collection \<Rightarrow> State \<Rightarrow> State" where
  "setCol c k x s =
     s\<lparr> lib := (lib s)\<lparr> db := (db (lib s))\<lparr> col := (col (db (lib s)))(c := (col (db (lib s)) c)(k := x)) \<rparr> \<rparr> \<rparr>"

text \<open>\<^verbatim>\<open>l.db.numRecordsScan[class][kind]++\<close>.\<close>

definition countScan :: "EntityClass \<Rightarrow> int \<Rightarrow> State \<Rightarrow> State" where
  "countScan c k s =
     s\<lparr> lib := (lib s)\<lparr> db := (db (lib s))\<lparr> numRecordsScan :=
       (numRecordsScan (db (lib s)))(c := (numRecordsScan (db (lib s)) c)(k := numRecordsScan (db (lib s)) c k + 1)) \<rparr> \<rparr> \<rparr>"

section \<open>The file system seen by the traversal\<close>

text \<open>
  An entry of the file system is what \<^verbatim>\<open>os.Lstat\<close> returns for it (\<open>None\<close>: the call
  fails) and, for a directory, what \<^verbatim>\<open>os.Open\<close> followed by \<^verbatim>\<open>Readdirnames(0)\<close> returns:
  the names with the entries behind them (\<open>None\<close>: one of the two calls fails).
\<close>

datatype Node = Node (lstat: "FileInfo option") (entries: "(string \<times> Node) list option")

text \<open>The bits of \<^verbatim>\<open>os.FileMode\<close> that \<^verbatim>\<open>scanDive\<close> tests.\<close>

definition ModeDir :: "32 word" where "ModeDir = 2 ^ 31"

definition ModeSymlink :: "32 word" where "ModeSymlink = 2 ^ 27"

definition ModeDevice :: "32 word" where "ModeDevice = 2 ^ 26"

definition ModeNamedPipe :: "32 word" where "ModeNamedPipe = 2 ^ 25"

definition ModeSocket :: "32 word" where "ModeSocket = 2 ^ 24"

definition ModeCharDevice :: "32 word" where "ModeCharDevice = 2 ^ 21"

text \<open>
  \<^verbatim>\<open>path.Ext\<close>: the suffix from the last dot of the last slash-separated element, empty
  when that element has no dot. The scan runs from the end of the path.
\<close>

fun extFrom :: "string \<Rightarrow> string \<Rightarrow> string" where
  "extFrom [] acc = []"
| "extFrom (c # cs) acc =
     (if c = CHR ''/'' then []
      else if c = CHR ''.'' then c # acc
      else extFrom cs (c # acc))"

definition path_Ext :: "string \<Rightarrow> string" where
  "path_Ext p = extFrom (rev p) []"

text \<open>
  \<^verbatim>\<open>path.Join(absPath, name)\<close> for a clean directory path and a name that
  \<^verbatim>\<open>Readdirnames\<close> returns.
\<close>

definition path_Join :: "string \<Rightarrow> string \<Rightarrow> string" where
  "path_Join d n = (if d = ''/'' then d @ n else d @ ''/'' @ n)"

section \<open>Traversal and indexing (library.go)\<close>

text \<open>
  The closure \<^verbatim>\<open>seenFile\<close> of \<^verbatim>\<open>scanDive\<close>: an equality query on the indexed path field of
  the collection. A class below \<^verbatim>\<open>ecUnknown\<close> would pass the guard and index
  \<^verbatim>\<open>indexRef\<close> out of range, a run-time panic.
\<close>

definition seenFile :: "State \<Rightarrow> EntityClass \<Rightarrow> int \<Rightarrow> string \<Rightarrow> (StoreError + bool) \<times> State" where
  "seenFile s cls k path =
     (let indexRef = [mxPath, sxPath]
      in if cls \<noteq> ecUnknown \<and> cls < ecCOUNT
         then if cls < 0 then (Inl IndexOutOfRange, s)
              else
                (let index = indexRef ! nat cls;
                     s1 = emit (EvQuery cls k path) s
                 in case EvalQuery (colOf s cls k) (hd (dbIndex cls ! index)) (VString path) of
                      Inl err \<Rightarrow> (Inl err, s1)
                    | Inr result \<Rightarrow> (Inr (length result > 0), s1))
         else (Inl (UnrecognizedClass cls), s))"

text \<open>
  \<^verbatim>\<open>if nil != ph && nil != ph.handleMedia { ph.handleMedia(l, absPath, entity, id) }\<close>, and the
  same with \<^verbatim>\<open>handleSupport\<close> and \<^verbatim>\<open>handleOther\<close>.
\<close>

definition notifyMedia :: "PathHandler option \<Rightarrow> string \<Rightarrow> nat \<Rightarrow> State \<Rightarrow> State" where
  "notifyMedia ph path i s =
     (case ph of None \<Rightarrow> s | Some h \<Rightarrow> if handleMedia h then emit (EvMedia path i) s else s)"

definition notifySupport :: "PathHandler option \<Rightarrow> string \<Rightarrow> nat \<Rightarrow> State \<Rightarrow> State" where
  "notifySupport ph path i s =
     (case ph of None \<Rightarrow> s | Some h \<Rightarrow> if handleSupport h then emit (EvSupport path i) s else s)"

definition notifyOther :: "PathHandler option \<Rightarrow> string \<Rightarrow> State \<Rightarrow> State" where
  "notifyOther ph path s =
     (case ph of None \<Rightarrow> s | Some h \<Rightarrow> if handleOther h then emit (EvOther path) s else s)"

text \<open>
  The tail of each of the three branches:
  \<^verbatim>\<open>if rec, recErr := x.toRecord(); nil == recErr { if id, insErr := c.Insert(*rec); nil == insErr
  { l.db.numRecordsScan[class][kind]++; handler } else { return rcDatabaseError } } else { return recErr }\<close>.
\<close>

definition insertNew ::
  "World \<Rightarrow> PathHandler option \<Rightarrow> EntityClass \<Rightarrow> int \<Rightarrow> string \<Rightarrow> MediaRecord \<Rightarrow> State
     \<Rightarrow> ReturnCode option \<times> State" where
  "insertNew W ph cls k path r s =
     (case toRecordErr W r of
        Some recErr \<Rightarrow> (Some recErr, s)
      | None \<Rightarrow>
          (let s1 = emit (EvInsert cls k path) s
           in case Insert (colOf s cls k) r of
                Inl insErr \<Rightarrow> (Some rcDatabaseError, s1)
              | Inr (i, c') \<Rightarrow>
                  (let s2 = countScan cls k (setCol cls k c' s1)
                   in (None, if cls = ecMedia then notifyMedia ph path i s2
                             else notifySupport ph path i s2))))"

text \<open>
  The entity that a branch builds from the live attributes of the file, as the record that
  its \<^verbatim>\<open>toRecord()\<close> yields. \<^verbatim>\<open>newMedia\<close> reads the clock for \<^verbatim>\<open>timeAdded\<close>;
  \<^verbatim>\<open>newSubtitles\<close> does not.
\<close>

definition audioRecord ::
  "World \<Rightarrow> string \<Rightarrow> string \<Rightarrow> string \<Rightarrow> string \<Rightarrow> FileInfo \<Rightarrow> State \<Rightarrow> MediaRecord \<times> State" where
  "audioRecord W path rel e eName fileInfo s =
     (case time_Now W s of
        (now, s1) \<Rightarrow> (AudioMedia_toRecord (newAudioMedia now path rel e eName fileInfo), s1))"

definition videoRecord ::
  "World \<Rightarrow> string \<Rightarrow> string \<Rightarrow> string \<Rightarrow> string \<Rightarrow> FileInfo \<Rightarrow> State \<Rightarrow> MediaRecord \<times> State" where
  "videoRecord W path rel e eName fileInfo s =
     (case time_Now W s of
        (now, s1) \<Rightarrow> (VideoMedia_toRecord (newVideoMedia now path rel e eName fileInfo), s1))"

definition subtitlesRecord ::
  "string \<Rightarrow> string \<Rightarrow> string \<Rightarrow> string \<Rightarrow> FileInfo \<Rightarrow> State \<Rightarrow> MediaRecord \<times> State" where
  "subtitlesRecord path rel e eName fileInfo s =
     (Subtitles_toRecord (newSubtitles path rel e eName fileInfo), s)"

text \<open>
  The body that the audio, video and subtitle branches repeat:
  \<^verbatim>\<open>seen, err := seenFile(l, class, int(kind), absPath); if err != nil { return rcInvalidFile };
  if !seen { entity := newX(...); toRecord, Insert, count, handler }\<close>.
\<close>

definition indexNew ::
  "World \<Rightarrow> PathHandler option \<Rightarrow> EntityClass \<Rightarrow> int \<Rightarrow> string
     \<Rightarrow> (State \<Rightarrow> MediaRecord \<times> State) \<Rightarrow> State \<Rightarrow> ReturnCode option \<times> State" where
  "indexNew W ph cls k path build s =
     (case seenFile s cls k path of
        (Inl err, s1) \<Rightarrow> (Some rcInvalidFile, s1)
      | (Inr seen, s1) \<Rightarrow>
          if \<not> seen
          then (case build s1 of (r, s2) \<Rightarrow> insertNew W ph cls k path r s2)
          else (None, s1))"

text \<open>
  The \<^verbatim>\<open>default\<close> case of the mode switch of \<^verbatim>\<open>scanDive\<close>: a regular file is classified by
  its extension, looked up in its collection, and inserted when it is not there; a file of
  no known kind goes to the other-handler.
\<close>

definition scanFile ::
  "Env \<Rightarrow> World \<Rightarrow> PathHandler option \<Rightarrow> string \<Rightarrow> string \<Rightarrow> FileInfo \<Rightarrow> State
     \<Rightarrow> ReturnCode option \<times> State" where
  "scanFile E W ph path rel fileInfo s =
     (let e = path_Ext path
      in case mediaKindOfFileExt E e of
           (k, eName) \<Rightarrow>
             if k = mkAudio then
               indexNew W ph ecMedia k path (audioRecord W path rel e eName fileInfo) s
             else if k = mkVideo then
               indexNew W ph ecMedia k path (videoRecord W path rel e eName fileInfo) s
             else
               (case supportKindOfFileExt E e of
                  (k, eName) \<Rightarrow>
                    if k = skSubtitles then
                      indexNew W ph ecSupport k path (subtitlesRecord path rel e eName fileInfo) s
                    else (None, notifyOther ph path s)))"

text \<open>
  \<^verbatim>\<open>func (l *Library) scanDive(ph *PathHandler, absPath string, depth uint) *ReturnCode\<close>, with
  \<open>scanEntries\<close> for its loop over the names of a directory. \<open>node\<close> is the entry at
  \<^verbatim>\<open>absPath\<close>. The depth is a natural number: it is raised by one for each directory level and
  cannot reach the end of \<^verbatim>\<open>uint\<close>.
\<close>

fun scanDive ::
  "Env \<Rightarrow> World \<Rightarrow> PathHandler option \<Rightarrow> Node \<Rightarrow> string \<Rightarrow> nat \<Rightarrow> State
     \<Rightarrow> ReturnCode option \<times> State"
and scanEntries ::
  "Env \<Rightarrow> World \<Rightarrow> PathHandler option \<Rightarrow> (string \<times> Node) list \<Rightarrow> string \<Rightarrow> nat \<Rightarrow> State
     \<Rightarrow> State" where
  "scanDive E W ph (Node st ents) path depth s =
     (case Rel E (Library.absPath (lib s)) path of
        None \<Rightarrow> (Some rcInvalidPath, s)
      | Some rel \<Rightarrow>
          (let s1 = emit (EvLstat path depth) s
           in case st of
                None \<Rightarrow> (Some rcInvalidStat, s1)
              | Some fileInfo \<Rightarrow>
                  if 0 < (fiMode fileInfo AND ModeDir) then
                    if depthUnlimited \<noteq> maxDepth (lib s1) \<and> depth > maxDepth (lib s1)
                    then (Some rcDirDepth, s1)
                    else
                      (let s2 = emit (EvOpenDir path) s1
                       in case ents of
                            None \<Rightarrow> (Some rcDirOpen, s2)
                          | Some dirName \<Rightarrow> (None, scanEntries E W ph dirName path depth s2))
                  else if 0 < (fiMode fileInfo AND ModeSymlink) then (Some rcInvalidFile, s1)
                  else if 0 < (fiMode fileInfo AND
                                 (ModeDevice OR ModeNamedPipe OR ModeSocket OR ModeCharDevice))
                  then (Some rcInvalidFile, s1)
                  else scanFile E W ph path rel fileInfo s1))"
| "scanEntries E W ph [] path depth s = s"
| "scanEntries E W ph ((n, child) # dirName) path depth s =
     (case scanDive E W ph child (path_Join path n) (depth + 1) s of
        (scanErr, s1) \<Rightarrow>
          scanEntries E W ph dirName path depth
            (case scanErr of None \<Rightarrow> s1 | Some rc \<Rightarrow> emit (EvWarn rc) s1))"

section \<open>Reconciliation, load and scan (library.go)\<close>

text \<open>
  The loop of \<^verbatim>\<open>recandidateSubtitles\<close> over the orphans:
  \<^verbatim>\<open>vid, err := subs.findCandidates(l, true, o.id); if nil != err { return err };
  if 0 == len(vid) { remain = append(remain, o) }\<close>. The result carries \<^verbatim>\<open>remain\<close>.
\<close>

fun candidates ::
  "World \<Rightarrow> (nat \<times> MediaRecord) list \<Rightarrow> (nat \<times> MediaRecord) list \<Rightarrow> State
     \<Rightarrow> ReturnCode option \<times> (nat \<times> MediaRecord) list \<times> State" where
  "candidates W [] remain s = (None, remain, s)"
| "candidates W ((i, r) # orphan) remain s =
     (let s1 = emit (EvCandidates i) s
      in case findCandidates W (db (lib s1)) i r of
           (Inl err, d) \<Rightarrow> (Some err, remain, withDb d s1)
         | (Inr vid, d) \<Rightarrow>
             candidates W orphan (if 0 = vid then remain @ [(i, r)] else remain) (withDb d s1))"

text \<open>
  \<^verbatim>\<open>func (l *Library) recandidateSubtitles(force bool) *ReturnCode\<close>: collect the subtitle
  records that are orphans (all of them when \<^verbatim>\<open>force\<close>), then look for candidates for each.
\<close>

definition recandidateSubtitles :: "World \<Rightarrow> bool \<Rightarrow> State \<Rightarrow> ReturnCode option \<times> State" where
  "recandidateSubtitles W force s =
     (let orphan = filter (\<lambda>(i, r). force \<or> 0 \<ge> knownVideoMedia W r)
                     (docs (colOf s ecSupport skSubtitles));
          numOrphan = length orphan
      in if numOrphan > 0
         then (case candidates W orphan [] s of
                 (Some err, remain, s1) \<Rightarrow> (Some err, s1)
               | (None, remain, s1) \<Rightarrow> (None, s1))
         else (None, s))"

text \<open>
  Modelled from the spec: the path that \<^verbatim>\<open>loadDive\<close> hands to a handler is the persisted
  absolute path of the entity; the \<^verbatim>\<open>fromRecord\<close> of a stored document is declared outside
  the sources at hand.
\<close>

definition storedPath :: "MediaRecord \<Rightarrow> string" where
  "storedPath r = (case r ''absPath'' of Some (VString p) \<Rightarrow> p | _ \<Rightarrow> [])"

text \<open>
  The visitor that \<^verbatim>\<open>loadDive\<close> passes to \<^verbatim>\<open>ForEachDoc\<close>: the handler of the class is called
  for a known kind, and the count is raised for every document.
\<close>

fun loadDocs ::
  "PathHandler option \<Rightarrow> EntityClass \<Rightarrow> int \<Rightarrow> (nat \<times> MediaRecord) list \<Rightarrow> nat \<Rightarrow> State
     \<Rightarrow> nat \<times> State" where
  "loadDocs ph cls k [] n s = (n, s)"
| "loadDocs ph cls k ((i, r) # ds) n s =
     loadDocs ph cls k ds (n + 1)
       (if cls = ecMedia then
          (if k = mkAudio then notifyMedia ph (storedPath r) i s
           else if k = mkVideo then notifyMedia ph (storedPath r) i s
           else s)
        else if cls = ecSupport then
          (if k = skSubtitles then notifySupport ph (storedPath r) i s else s)
        else s)"

text \<open>
  \<^verbatim>\<open>func (l *Library) loadDive(ph *PathHandler, class EntityClass, kind int) (uint, *ReturnCode)\<close>:
  \<^verbatim>\<open>ret\<close> is declared \<^verbatim>\<open>nil\<close> and never assigned.
\<close>

definition loadDive ::
  "PathHandler option \<Rightarrow> EntityClass \<Rightarrow> int \<Rightarrow> State \<Rightarrow> (nat \<times> ReturnCode option) \<times> State" where
  "loadDive ph cls k s =
     (case loadDocs ph cls k (docs (colOf s cls k)) 0 s of
        (n, s1) \<Rightarrow> ((n, None), s1))"

text \<open>
  The two nested loops of \<^verbatim>\<open>load()\<close> over the classes and kinds of
  \<^verbatim>\<open>l.db.numRecordsLoad\<close>, flattened into pairs: \<^verbatim>\<open>if count[kind], err = l.loadDive(handler,
  class, kind); nil != err { return numLoad, err }\<close>. An error in the result is that early
  return.
\<close>

fun loadAll ::
  "PathHandler option \<Rightarrow> (EntityClass \<times> int) list \<Rightarrow> State \<Rightarrow> ReturnCode option \<times> State" where
  "loadAll ph [] s = (None, s)"
| "loadAll ph ((cls, k) # rest) s =
     (case loadDive ph cls k s of
        ((n, err), s1) \<Rightarrow>
          (let s2 = withDb ((db (lib s1))\<lparr> numRecordsLoad :=
                      (numRecordsLoad (db (lib s1)))(cls := (numRecordsLoad (db (lib s1)) cls)(k := n)) \<rparr>) s1
           in case err of
                Some rc \<Rightarrow> (Some rc, s2)
              | None \<Rightarrow> loadAll ph rest s2))"

definition classKinds :: "(EntityClass \<times> int) list" where
  "classKinds = concat (map (\<lambda>c. map (\<lambda>k. (c, k)) (kindsOf c)) [ecMedia, ecSupport])"

text \<open>
  The \<^verbatim>\<open>select\<close> with a send on a buffered channel and a \<^verbatim>\<open>default\<close> case: the send goes
  through when the channel holds fewer values than its capacity.
\<close>

definition trySend :: "'a list \<Rightarrow> nat \<Rightarrow> 'a \<Rightarrow> 'a list option" where
  "trySend ch cap v = (if length ch < cap then Some (ch @ [v]) else None)"

text \<open>
  \<^verbatim>\<open>if !isCLIMode { l.busyState.inc() }\<close> and \<^verbatim>\<open>if !isCLIMode { l.busyState.dec() }\<close>:
  whether the statement is passed (it is not when the call of \<^verbatim>\<open>inc()\<close> or \<^verbatim>\<open>dec()\<close>
  never returns), and the state that it leaves.
\<close>

definition busyInc :: "State \<Rightarrow> bool \<times> State" where
  "busyInc s =
     (if \<not> isCLIMode s
      then (case inc (busy s) of (r, b) \<Rightarrow> (r \<noteq> None, s\<lparr> busy := b \<rparr>))
      else (True, s))"

definition busyDec :: "State \<Rightarrow> bool \<times> State" where
  "busyDec s =
     (if \<not> isCLIMode s
      then (case dec (busy s) of (r, b) \<Rightarrow> (r \<noteq> None, s\<lparr> busy := b \<rparr>))
      else (True, s))"

text \<open>
  The result of \<^verbatim>\<open>load()\<close> and of \<^verbatim>\<open>scan()\<close>: the returned pair, \<open>None\<close> when the call
  never returns, with the state that the call leaves.
\<close>

type_synonym Outcome = "(nat \<times> ReturnCode option) option \<times> State"

text \<open>
  The end of \<^verbatim>\<open>load()\<close>: \<^verbatim>\<open>l.loadElapsed = time.Since(<-l.loadStart)\<close>, the busy counter
  lowered, the total of loaded records returned. The call does not return when the receive
  finds the channel empty and blocks, or when \<^verbatim>\<open>dec()\<close> blocks.
\<close>

definition loadDone :: "World \<Rightarrow> State \<Rightarrow> Outcome" where
  "loadDone W s3 =
     (case loadStart (lib s3) of
        [] \<Rightarrow> (None, s3)
      | t # ch' \<Rightarrow>
          (case time_Now W (s3\<lparr> lib := (lib s3)\<lparr> loadStart := ch' \<rparr> \<rparr>) of
             (t1, s4) \<Rightarrow>
               (let s5 = s4\<lparr> lib := (lib s4)\<lparr> loadElapsed := t1 - t \<rparr> \<rparr>
                in case busyDec s5 of
                     (False, s6) \<Rightarrow> (None, s6)
                   | (True, s6) \<Rightarrow> (Some (totalRecords (db (lib s6)) dmLoad, None), s6))))"

text \<open>
  \<^verbatim>\<open>func (l *Library) load(handler *PathHandler) (uint, *ReturnCode)\<close>: the non-blocking
  send on \<^verbatim>\<open>l.loadStart\<close>, the busy counter raised, the collections loaded, and the end
  above; the \<^verbatim>\<open>default\<close> case of the \<^verbatim>\<open>select\<close> is the busy error.
\<close>

definition load :: "World \<Rightarrow> PathHandler option \<Rightarrow> State \<Rightarrow> Outcome" where
  "load W handler s =
     (case time_Now W s of
        (t0, s0) \<Rightarrow>
          (case trySend (loadStart (lib s0)) maxLibraryScanners t0 of
             None \<Rightarrow> (Some (0, Some rcLibraryBusy), s0)
           | Some ch \<Rightarrow>
               (case busyInc (s0\<lparr> lib := (lib s0)\<lparr> loadStart := ch \<rparr> \<rparr>) of
                  (False, s2) \<Rightarrow> (None, s2)
                | (True, s2) \<Rightarrow>
                    (case loadAll handler classKinds s2 of
                       (Some err, s3) \<Rightarrow> (Some (0, Some err), s3)
                     | (None, s3) \<Rightarrow> loadDone W s3))))"

text \<open>
  The end of \<^verbatim>\<open>scan()\<close>: \<^verbatim>\<open>l.lastScan = time.Now()\<close>,
  \<^verbatim>\<open>l.scanElapsed = time.Since(<-l.scanStart)\<close>, the busy counter lowered, the total of
  scanned records returned with the error of the traversal.
\<close>

definition scanDone :: "World \<Rightarrow> ReturnCode option \<Rightarrow> State \<Rightarrow> Outcome" where
  "scanDone W err s4 =
     (case time_Now W s4 of
        (t1, s5) \<Rightarrow>
          (let s6 = s5\<lparr> lib := (lib s5)\<lparr> lastScan := t1 \<rparr> \<rparr>
           in case scanStart (lib s6) of
                [] \<Rightarrow> (None, s6)
              | t # ch' \<Rightarrow>
                  (case time_Now W (s6\<lparr> lib := (lib s6)\<lparr> scanStart := ch' \<rparr> \<rparr>) of
                     (t2, s7) \<Rightarrow>
                       (let s8 = s7\<lparr> lib := (lib s7)\<lparr> scanElapsed := t2 - t \<rparr> \<rparr>
                        in case busyDec s8 of
                             (False, s9) \<Rightarrow> (None, s9)
                           | (True, s9) \<Rightarrow>
                               (Some (totalRecords (db (lib s9)) dmScan, err), s9)))))"

text \<open>
  \<^verbatim>\<open>func (l *Library) scan(handler *PathHandler) (uint, *ReturnCode)\<close>; \<open>root\<close> is the entry
  at \<^verbatim>\<open>l.absPath\<close>. After the non-blocking send on \<^verbatim>\<open>l.scanStart\<close> and the raise of the busy
  counter come \<^verbatim>\<open>err = l.scanDive(handler, l.absPath, 1)\<close> and
  \<^verbatim>\<open>if nil == err { l.recandidateSubtitles(false) }\<close>, whose returned value the source
  drops, and the end above.
\<close>

definition scan :: "Env \<Rightarrow> World \<Rightarrow> PathHandler option \<Rightarrow> Node \<Rightarrow> State \<Rightarrow> Outcome" where
  "scan E W handler root s =
     (case time_Now W s of
        (t0, s0) \<Rightarrow>
          (case trySend (scanStart (lib s0)) maxLibraryScanners t0 of
             None \<Rightarrow> (Some (0, Some rcLibraryBusy), s0)
           | Some ch \<Rightarrow>
               (case busyInc (s0\<lparr> lib := (lib s0)\<lparr> scanStart := ch \<rparr> \<rparr>) of
                  (False, s2) \<Rightarrow> (None, s2)
                | (True, s2) \<Rightarrow>
                    (case scanDive E W handler root (Library.absPath (lib s2)) 1 s2 of
                       (err, s3) \<Rightarrow>
                         (let s4 = (if err = None then snd (recandidateSubtitles W False s3) else s3)
                          in scanDone W err s4)))))"

text \<open>
  The state of an admitted \<^verbatim>\<open>scan()\<close> and \<^verbatim>\<open>load()\<close> after the raise of the busy counter:
  the state in which the work begins, when the raise is passed.
\<close>

definition scanBegun :: "World \<Rightarrow> State \<Rightarrow> State" where
  "scanBegun W s =
     (case time_Now W s of
        (t0, s0) \<Rightarrow> snd (busyInc (s0\<lparr> lib := (lib s0)\<lparr> scanStart := scanStart (lib s0) @ [t0] \<rparr> \<rparr>)))"

definition loadBegun :: "World \<Rightarrow> State \<Rightarrow> State" where
  "loadBegun W s =
     (case time_Now W s of
        (t0, s0) \<Rightarrow> snd (busyInc (s0\<lparr> lib := (lib s0)\<lparr> loadStart := loadStart (lib s0) @ [t0] \<rparr> \<rparr>)))"

section \<open>Notions used in the statements\<close>

text \<open>A mode that takes the \<^verbatim>\<open>default\<close> case of the switch in \<^verbatim>\<open>scanDive\<close>: a regular file.\<close>

definition regularMode :: "32 word \<Rightarrow> bool" where
  "regularMode m \<longleftrightarrow>
     \<not> 0 < (m AND ModeDir) \<and> \<not> 0 < (m AND ModeSymlink) \<and>
     \<not> 0 < (m AND (ModeDevice OR ModeNamedPipe OR ModeSocket OR ModeCharDevice))"

text \<open>
  An observation of the state that does not look at the database, at the events or at the
  number of clock readings.
\<close>

definition framed :: "(State \<Rightarrow> 'a) \<Rightarrow> bool" where
  "framed f \<longleftrightarrow>
     (\<forall>s e. f (emit e s) = f s) \<and> (\<forall>s d. f (withDb d s) = f s) \<and>
     (\<forall>s n. f (s\<lparr> ticks := n \<rparr>) = f s)"

text \<open>The admission gate of a library is held: its channel is filled to capacity.\<close>

definition gateHeld :: "Time list \<Rightarrow> bool" where
  "gateHeld ch \<longleftrightarrow> maxLibraryScanners \<le> length ch"

text \<open>The events of a handler slot that is present.\<close>

definition otherEvents :: "PathHandler option \<Rightarrow> string \<Rightarrow> Event list" where
  "otherEvents ph path =
     (case ph of None \<Rightarrow> [] | Some h \<Rightarrow> if handleOther h then [EvOther path] else [])"

text \<open>
  The returned error and the busy state of a call of \<^verbatim>\<open>scan()\<close> or \<^verbatim>\<open>load()\<close> that
  returns; \<open>None\<close> for a call that does not.
\<close>

definition errorAfter :: "Outcome \<Rightarrow> ReturnCode option option" where
  "errorAfter x = map_option snd (fst x)"

definition busyAfter :: "Outcome \<Rightarrow> BusyState option" where
  "busyAfter x = (case fst x of None \<Rightarrow> None | Some r \<Rightarrow> Some (busy (snd x)))"

section \<open>Libraries, trees and environments for evaluation\<close>

definition testWorld :: World where
  "testWorld =
     \<lparr> clock = (\<lambda>n. 1538000000 + int n),
       toRecordErr = (\<lambda>r. None),
       knownVideoMedia = (\<lambda>r. 0),
       findCandidates = (\<lambda>d i r. (Inr 0, d)) \<rparr>"

text \<open>A world whose \<^verbatim>\<open>findCandidates\<close> fails for every subtitle.\<close>

definition failingWorld :: World where
  "failingWorld = testWorld\<lparr> findCandidates := (\<lambda>d i r. (Inl rcDatabaseError, d)) \<rparr>"

definition emptyCol :: Collection where
  "emptyCol = \<lparr> docs = [], writable = True, indexed = [''absPath''] \<rparr>"

definition emptyDb :: Database where
  "emptyDb = \<lparr> col = (\<lambda>c k. emptyCol), numRecordsLoad = (\<lambda>c k. 0), numRecordsScan = (\<lambda>c k. 0) \<rparr>"

definition testLib :: "nat \<Rightarrow> Library" where
  "testLib d =
     \<lparr> Library.absPath = ''/lib'', name = ''lib'', maxDepth = d, db = emptyDb,
       loadStart = [], loadElapsed = 0, scanStart = [], scanElapsed = 0, lastScan = zeroTime \<rparr>"

definition testState :: "nat \<Rightarrow> bool \<Rightarrow> State" where
  "testState d cli =
     \<lparr> lib = testLib d, busy = newBusyState, isCLIMode = cli, trace = [], ticks = 0 \<rparr>"

definition dirInfo :: "string \<Rightarrow> FileInfo" where
  "dirInfo n = \<lparr> fiName = n, fiSize = 4096, fiMode = ModeDir OR 493, fiModTime = 1537000000,
                  fiSys = VNil \<rparr>"

definition fileInfo :: "string \<Rightarrow> FileInfo" where
  "fileInfo n = \<lparr> fiName = n, fiSize = 1024, fiMode = 420, fiModTime = 1537000000,
                   fiSys = VNil \<rparr>"

definition fileNode :: "string \<Rightarrow> Node" where
  "fileNode n = Node (Some (fileInfo n)) None"

text \<open>\<^verbatim>\<open>/lib/a.mp3\<close>.\<close>

definition flatTree :: Node where
  "flatTree = Node (Some (dirInfo ''lib'')) (Some [(''a.mp3'', fileNode ''a.mp3'')])"

text \<open>\<^verbatim>\<open>/lib/sub/a.mp3\<close>.\<close>

definition deepTree :: Node where
  "deepTree =
     Node (Some (dirInfo ''lib''))
       (Some [(''sub'', Node (Some (dirInfo ''sub'')) (Some [(''a.mp3'', fileNode ''a.mp3'')]))])"

text \<open>\<^verbatim>\<open>/lib/a.srt\<close> and \<^verbatim>\<open>/lib/b.srt\<close>.\<close>

definition subsTree :: Node where
  "subsTree =
     Node (Some (dirInfo ''lib''))
       (Some [(''a.srt'', fileNode ''a.srt''), (''b.srt'', fileNode ''b.srt'')])"

text \<open>A library in the middle of a scan and of a load: each gate holds a token.\<close>

definition heldState :: State where
  "heldState = (testState 0 False)\<lparr> lib := (testLib 0)\<lparr> scanStart := [7], loadStart := [7] \<rparr> \<rparr>"

text \<open>
  A library whose busy state is watched: \<open>n\<close> receive operations are still to come on
  \<^verbatim>\<open>changed\<close>.
\<close>

definition watchedState :: "bool \<Rightarrow> nat \<Rightarrow> State" where
  "watchedState cli n =
     (testState 0 cli)\<lparr> busy := newBusyState\<lparr> changed := \<lparr> taken = [], receivers = n \<rparr> \<rparr> \<rparr>"

text \<open>The state in which \<^verbatim>\<open>scan()\<close> calls \<^verbatim>\<open>recandidateSubtitles\<close> on the tree of two subtitles.\<close>

definition subsScanned :: State where
  "subsScanned =
     snd (scanDive testEnv failingWorld None subsTree ''/lib'' 1
            (scanBegun failingWorld (testState 0 True)))"

text \<open>The subtitles for which \<^verbatim>\<open>findCandidates\<close> was called, in order.\<close>

definition candidateCalls :: "Event list \<Rightarrow> nat list" where
  "candidateCalls evs = concat (map (\<lambda>e. case e of EvCandidates i \<Rightarrow> [i] | _ \<Rightarrow> []) evs)"

section \<open>Notions for the statements about the traversal\<close>

text \<open>The depths of the \<^verbatim>\<open>os.Lstat\<close> calls among some events, in order.\<close>

definition lstatDepths :: "Event list \<Rightarrow> nat list" where
  "lstatDepths evs = concat (map (\<lambda>e. case e of EvLstat p n \<Rightarrow> [n] | _ \<Rightarrow> []) evs)"

text \<open>The events of the \<^verbatim>\<open>default\<close> case of \<^verbatim>\<open>scanDive\<close>: query, insert, and the three handlers.\<close>

definition fileEvent :: "Event \<Rightarrow> bool" where
  "fileEvent e =
     (case e of EvQuery c k p \<Rightarrow> True | EvInsert c k p \<Rightarrow> True | EvMedia p i \<Rightarrow> True
      | EvSupport p i \<Rightarrow> True | EvOther p \<Rightarrow> True | _ \<Rightarrow> False)"

text \<open>
  An observation of the state that does not look at the database, at the number of clock
  readings, or at the events of the \<^verbatim>\<open>default\<close> case.
\<close>

definition quiet :: "(State \<Rightarrow> 'a) \<Rightarrow> bool" where
  "quiet f \<longleftrightarrow>
     (\<forall>s e. fileEvent e \<longrightarrow> f (emit e s) = f s) \<and> (\<forall>s d. f (withDb d s) = f s) \<and>
     (\<forall>s n. f (s\<lparr> ticks := n \<rparr>) = f s)"

text \<open>The number of records of a collection whose indexed path field holds the path.\<close>

definition countPath :: "Collection \<Rightarrow> string \<Rightarrow> nat" where
  "countPath c path = length (filter (\<lambda>(i, r). r ''absPath'' = Some (VString path)) (docs c))"


text \<open>
  The collection that the extension of a path selects: audio before video, then subtitles;
  \<open>None\<close> for a path whose lower-cased extension is in no table.
\<close>

definition collectionOf :: "Env \<Rightarrow> string \<Rightarrow> (EntityClass \<times> int) option" where
  "collectionOf E path =
     (let x = ToLower E (path_Ext path)
      in if inTable audioTable x then Some (ecMedia, mkAudio)
         else if inTable videoTable x then Some (ecMedia, mkVideo)
         else if inTable subsTable x then Some (ecSupport, skSubtitles)
         else None)"

text \<open>
  The regular files that a traversal from an entry hands to the \<^verbatim>\<open>default\<close> case, with
  their paths, in order: those whose path \<^verbatim>\<open>filepath.Rel\<close> accepts, that \<^verbatim>\<open>os.Lstat\<close> can
  read, and that lie below directories that can be listed and are not beyond the depth
  limit. \<open>root\<close> is \<^verbatim>\<open>l.absPath\<close>, \<open>lim\<close> is \<^verbatim>\<open>l.maxDepth\<close>.
\<close>

fun reached :: "Env \<Rightarrow> string \<Rightarrow> nat \<Rightarrow> Node \<Rightarrow> string \<Rightarrow> nat \<Rightarrow> (string \<times> FileInfo) list"
and reachedIn :: "Env \<Rightarrow> string \<Rightarrow> nat \<Rightarrow> (string \<times> Node) list \<Rightarrow> string \<Rightarrow> nat \<Rightarrow> (string \<times> FileInfo) list" where
  "reached E root lim (Node st ents) path depth =
     (case Rel E root path of
        None \<Rightarrow> []
      | Some rel \<Rightarrow>
          (case st of
             None \<Rightarrow> []
           | Some fi \<Rightarrow>
               if 0 < (fiMode fi AND ModeDir) then
                 if depthUnlimited \<noteq> lim \<and> depth > lim then []
                 else (case ents of
                         None \<Rightarrow> []
                       | Some dirName \<Rightarrow> reachedIn E root lim dirName path depth)
               else if regularMode (fiMode fi) then [(path, fi)]
               else []))"
| "reachedIn E root lim [] path depth = []"
| "reachedIn E root lim ((n, child) # dirName) path depth =
     reached E root lim child (path_Join path n) (depth + 1) @
     reachedIn E root lim dirName path depth"

text \<open>
  The index works: the three collections accept inserts and have an index on the path
  field, and \<^verbatim>\<open>toRecord()\<close> returns no error.
\<close>

definition storeWorks :: "World \<Rightarrow> State \<Rightarrow> bool" where
  "storeWorks W s \<longleftrightarrow>
     (\<forall>r. toRecordErr W r = None) \<and>
     (\<forall>ck \<in> set classKinds.
        writable (colOf s (fst ck) (snd ck)) \<and> ''absPath'' \<in> set (indexed (colOf s (fst ck) (snd ck))))"

text \<open>No collection holds two records with the same path.\<close>

definition uniquePaths :: "State \<Rightarrow> bool" where
  "uniquePaths s \<longleftrightarrow> (\<forall>c k path. countPath (colOf s c k) path \<le> 1)"

section \<open>Properties of the busy accounting\<close>

lemma unat_all_ones: "unat (- 1 :: 64 word) = 2 ^ 64 - 1"
  by (simp add: unsigned_minus_1_eq_mask mask_eq_exp_minus_1)

lemma unat_add_all_ones:
  "unat (c + NOT (0 :: 64 word)) = (unat c + (2 ^ 64 - 1)) mod 2 ^ 64"
proof -
  have "unat (c + (- 1 :: 64 word)) = (unat c + unat (- 1 :: 64 word)) mod 2 ^ LENGTH(64)"
    by (rule unat_word_ariths(1))
  then show ?thesis
    unfolding unat_all_ones by simp
qed

lemma send_simps:
  "0 < receivers ch \<Longrightarrow> send ch v = Some \<lparr> taken = taken ch @ [v], receivers = receivers ch - 1 \<rparr>"
  "receivers ch = 0 \<Longrightarrow> send ch v = None"
  by (simp_all add: send_def)

lemma inc_busyCount: "busyCount (snd (inc s)) = busyCount s + 1"
  by (simp add: inc_def reset_def Let_def split: option.splits)

lemma dec_busyCount: "busyCount (snd (dec s)) = busyCount s - 1"
  by (simp add: dec_def reset_def Let_def split: option.splits)

lemma inc_blocks: "receivers (changed s) = 0 \<Longrightarrow> inc s = (None, s\<lparr> busyCount := busyCount s + 1 \<rparr>)"
  by (simp add: inc_def send_def Let_def)

lemma dec_blocks: "receivers (changed s) = 0 \<Longrightarrow> dec s = (None, s\<lparr> busyCount := busyCount s - 1 \<rparr>)"
  by (simp add: dec_def send_def Let_def)

lemma inc_returns:
  assumes "0 < receivers (changed s)"
  shows "fst (inc s) = Some (sint (busyCount s + 1))"
    and "changed (snd (inc s)) =
           \<lparr> taken = taken (changed s) @ [busyCount s + 1], receivers = receivers (changed s) - 1 \<rparr>"
    and "busyCycle (snd (inc s)) = (if busyCount s = 0 then 0 else busyCycle s)"
  using assms by (simp_all add: inc_def send_def reset_def Let_def)

lemma dec_returns:
  assumes "0 < receivers (changed s)"
  shows "fst (dec s) = Some (sint (busyCount s - 1))"
    and "changed (snd (dec s)) =
           \<lparr> taken = taken (changed s) @ [busyCount s - 1], receivers = receivers (changed s) - 1 \<rparr>"
    and "busyCycle (snd (dec s)) = (if busyCount s = 1 then 0 else busyCycle s)"
  using assms by (simp_all add: dec_def send_def reset_def Let_def)

lemma dec_inc_busyCount: "busyCount (snd (dec (snd (inc s)))) = busyCount s"
  by (simp add: dec_busyCount inc_busyCount)

text \<open>
  C9, as stated, fails when nothing receives from \<^verbatim>\<open>changed\<close>: the send in \<^verbatim>\<open>inc()\<close>
  comes before the reset and blocks, so the increment has taken the busy count from 0 to 1,
  the cycle counter still holds its 7, and the call does not return.
\<close>

theorem inc_without_receiver_skips_reset:
  "fst (inc \<lparr> changed = \<lparr> taken = [], receivers = 0 \<rparr>, busyCount = 0, busyCycle = 7 \<rparr>) = None \<and>
   busyCount (snd (inc \<lparr> changed = \<lparr> taken = [], receivers = 0 \<rparr>, busyCount = 0, busyCycle = 7 \<rparr>)) = 1 \<and>
   busyCycle (snd (inc \<lparr> changed = \<lparr> taken = [], receivers = 0 \<rparr>, busyCount = 0, busyCycle = 7 \<rparr>)) = 7"
  by (simp add: inc_def send_def Let_def)

text \<open>
  C9, amended. When the value sent on \<^verbatim>\<open>changed\<close> is received, an increment from 0 to 1 and
  a decrement from 1 to 0 both return and store zero in the UI-cycle counter. Every other
  increment and decrement leaves the cycle counter as it was, received or not. When the
  value is not received, \<^verbatim>\<open>inc()\<close> and \<^verbatim>\<open>dec()\<close> do not return: the busy count is updated and
  nothing else is, so the cycle counter is not reset even on a crossing of zero.
\<close>

theorem busy_cycle_reset_on_zero_crossing:
  "(0 < receivers (changed s) \<and> busyCount s = 0 \<longrightarrow>
      fst (inc s) = Some 1 \<and> busyCount (snd (inc s)) = 1 \<and> busyCycle (snd (inc s)) = 0) \<and>
   (0 < receivers (changed s) \<and> busyCount s = 1 \<longrightarrow>
      fst (dec s) = Some 0 \<and> busyCount (snd (dec s)) = 0 \<and> busyCycle (snd (dec s)) = 0) \<and>
   (busyCount s \<noteq> 0 \<longrightarrow> busyCycle (snd (inc s)) = busyCycle s) \<and>
   (busyCount s \<noteq> 1 \<longrightarrow> busyCycle (snd (dec s)) = busyCycle s) \<and>
   (receivers (changed s) = 0 \<longrightarrow>
      inc s = (None, s\<lparr> busyCount := busyCount s + 1 \<rparr>) \<and>
      dec s = (None, s\<lparr> busyCount := busyCount s - 1 \<rparr>))"
proof -
  have a: "busyCount s + 1 = 1 \<longleftrightarrow> busyCount s = 0"
    by simp
  have b: "busyCount s - 1 = 0 \<longleftrightarrow> busyCount s = 1"
    by simp
  show ?thesis
    using a b by (simp add: inc_def dec_def send_def reset_def Let_def)
qed

theorem busy_cycle_reset_on_zero_crossing_witness:
  "busyCycle (snd (inc \<lparr> changed = \<lparr> taken = [], receivers = 1 \<rparr>, busyCount = 0, busyCycle = 7 \<rparr>)) = 0 \<and>
   busyCycle (snd (dec \<lparr> changed = \<lparr> taken = [], receivers = 1 \<rparr>, busyCount = 1, busyCycle = 7 \<rparr>)) = 0 \<and>
   busyCycle (snd (inc \<lparr> changed = \<lparr> taken = [], receivers = 1 \<rparr>, busyCount = 1, busyCycle = 7 \<rparr>)) = 7 \<and>
   busyCycle (snd (dec \<lparr> changed = \<lparr> taken = [], receivers = 1 \<rparr>, busyCount = 2, busyCycle = 7 \<rparr>)) = 7 \<and>
   dec \<lparr> changed = \<lparr> taken = [], receivers = 0 \<rparr>, busyCount = 1, busyCycle = 7 \<rparr> =
     (None, \<lparr> changed = \<lparr> taken = [], receivers = 0 \<rparr>, busyCount = 0, busyCycle = 7 \<rparr>)"
  using busy_cycle_reset_on_zero_crossing [of "\<lparr> changed = \<lparr> taken = [], receivers = 1 \<rparr>, busyCount = 0, busyCycle = 7 \<rparr>"]
    busy_cycle_reset_on_zero_crossing [of "\<lparr> changed = \<lparr> taken = [], receivers = 1 \<rparr>, busyCount = 1, busyCycle = 7 \<rparr>"]
    busy_cycle_reset_on_zero_crossing [of "\<lparr> changed = \<lparr> taken = [], receivers = 1 \<rparr>, busyCount = 2, busyCycle = 7 \<rparr>"]
    busy_cycle_reset_on_zero_crossing [of "\<lparr> changed = \<lparr> taken = [], receivers = 0 \<rparr>, busyCount = 1, busyCycle = 7 \<rparr>"]
  by simp

text \<open>
  C10. \<^verbatim>\<open>dec()\<close> at a busy count of 0 neither fails nor saturates: the 64-bit counter
  wraps to \<open>2^64 - 1\<close> and the cycle counter is not reset, whether or not the value sent on
  \<^verbatim>\<open>changed\<close> is received. When it is received, the value sent is the wrapped count and the
  call returns it as the \<^verbatim>\<open>int\<close> \<open>-1\<close>; when it is not, the call does not return.
\<close>

theorem dec_at_zero_wraps:
  "unat (busyCount (snd (dec s))) = (unat (busyCount s) + (2 ^ 64 - 1)) mod 2 ^ 64 \<and>
   (busyCount s = 0 \<longrightarrow>
      unat (busyCount (snd (dec s))) = 2 ^ 64 - 1 \<and>
      busyCycle (snd (dec s)) = busyCycle s \<and>
      (0 < receivers (changed s) \<longrightarrow>
         taken (changed (snd (dec s))) = taken (changed s) @ [busyCount (snd (dec s))] \<and>
         fst (dec s) = Some (- 1)) \<and>
      (receivers (changed s) = 0 \<longrightarrow>
         taken (changed (snd (dec s))) = taken (changed s) \<and> fst (dec s) = None))"
proof -
  have "busyCount (snd (dec s)) = busyCount s + NOT (0 :: 64 word)"
    by (simp add: dec_busyCount)
  then have m: "unat (busyCount (snd (dec s))) = (unat (busyCount s) + (2 ^ 64 - 1)) mod 2 ^ 64"
    by (simp only: unat_add_all_ones)
  have z: "busyCount s = 0 \<Longrightarrow> unat (busyCount (snd (dec s))) = 2 ^ 64 - 1"
    by (simp add: dec_busyCount unat_all_ones)
  have c: "busyCount s = 0 \<Longrightarrow> busyCycle (snd (dec s)) = busyCycle s"
    by (simp add: dec_def send_def reset_def Let_def)
  have r: "busyCount s = 0 \<Longrightarrow> 0 < receivers (changed s) \<Longrightarrow>
      taken (changed (snd (dec s))) = taken (changed s) @ [busyCount (snd (dec s))] \<and>
      fst (dec s) = Some (- 1)"
    by (simp add: dec_def send_def reset_def Let_def)
  have n: "receivers (changed s) = 0 \<Longrightarrow>
      taken (changed (snd (dec s))) = taken (changed s) \<and> fst (dec s) = None"
    by (simp add: dec_blocks)
  from m z c r n show ?thesis
    by blast
qed

theorem dec_at_zero_wraps_witness:
  "unat (busyCount (snd (dec \<lparr> changed = \<lparr> taken = [], receivers = 1 \<rparr>, busyCount = 0, busyCycle = 5 \<rparr>))) =
     18446744073709551615 \<and>
   busyCycle (snd (dec \<lparr> changed = \<lparr> taken = [], receivers = 1 \<rparr>, busyCount = 0, busyCycle = 5 \<rparr>)) = 5 \<and>
   fst (dec \<lparr> changed = \<lparr> taken = [], receivers = 1 \<rparr>, busyCount = 0, busyCycle = 5 \<rparr>) = Some (- 1) \<and>
   unat (busyCount (snd (dec \<lparr> changed = \<lparr> taken = [], receivers = 0 \<rparr>, busyCount = 0, busyCycle = 5 \<rparr>))) =
     18446744073709551615 \<and>
   fst (dec \<lparr> changed = \<lparr> taken = [], receivers = 0 \<rparr>, busyCount = 0, busyCycle = 5 \<rparr>) = None"
  using dec_at_zero_wraps [of "\<lparr> changed = \<lparr> taken = [], receivers = 1 \<rparr>, busyCount = 0, busyCycle = 5 \<rparr>"]
    dec_at_zero_wraps [of "\<lparr> changed = \<lparr> taken = [], receivers = 0 \<rparr>, busyCount = 0, busyCycle = 5 \<rparr>"]
  by simp

section \<open>Properties of the classification lookup\<close>

lemma extIn_set: "extIn l x \<longleftrightarrow> x \<in> set l"
  by (induction l) auto

lemma inTable_set: "inTable t x \<longleftrightarrow> (\<exists>(n, l) \<in> set t. extIn l x)"
  by (simp add: inTable_def list_ex_iff)

lemma set_namesOf: "set (namesOf t x) = {n. \<exists>l. (n, l) \<in> set t \<and> extIn l x}"
  by (force simp: namesOf_def)

lemma kindOfEntries_miss: "\<not> inTable t x \<Longrightarrow> kindOfEntries t x = ('''', False)"
  by (induction t) (auto simp: inTable_def)

lemma kindOfEntries_hit:
  "inTable t x \<Longrightarrow> snd (kindOfEntries t x) \<and> fst (kindOfEntries t x) \<in> set (namesOf t x)"
  by (induction t) (auto simp: inTable_def namesOf_def)

lemma inTable_cong: "set t' = set t \<Longrightarrow> inTable t' x = inTable t x"
  by (simp add: inTable_set)

lemma namesOf_cong: "set t' = set t \<Longrightarrow> set (namesOf t' x) = set (namesOf t x)"
  by (simp add: set_namesOf)

lemma kindOfFileExt_miss:
  assumes "set (rangeOrder E t) = set t" and "\<not> inTable t x"
  shows "kindOfFileExt E t x = ('''', False)"
  using assms inTable_cong [of "rangeOrder E t" t x]
  by (simp add: kindOfFileExt_def kindOfEntries_miss)

lemma kindOfFileExt_hit:
  assumes "set (rangeOrder E t) = set t" and "inTable t x"
  shows "snd (kindOfFileExt E t x) \<and> fst (kindOfFileExt E t x) \<in> set (namesOf t x)"
proof -
  have "inTable (rangeOrder E t) x"
    using assms inTable_cong [of "rangeOrder E t" t x] by simp
  then have "snd (kindOfEntries (rangeOrder E t) x) \<and>
      fst (kindOfEntries (rangeOrder E t) x) \<in> set (namesOf (rangeOrder E t) x)"
    by (rule kindOfEntries_hit)
  then show ?thesis
    using assms(1) namesOf_cong [of "rangeOrder E t" t x] by (simp add: kindOfFileExt_def)
qed

lemma kindOfFileExt_hitE:
  assumes "set (rangeOrder E t) = set t" and "inTable t x"
  obtains n where "kindOfFileExt E t x = (n, True)" and "n \<in> set (namesOf t x)"
  using kindOfFileExt_hit [OF assms] by (cases "kindOfFileExt E t x") auto

lemma firstKind_hit:
  "kindOfFileExt E (MediaExt.table m) x = (n, True) \<Longrightarrow> firstKind E u (m # ms) x = (MediaExt.kind m, n)"
  by simp

lemma firstKind_miss:
  "kindOfFileExt E (MediaExt.table m) x = (n, False) \<Longrightarrow> firstKind E u (m # ms) x = firstKind E u ms x"
  by simp

lemma media_audio:
  assumes "rangeVisitsAll E" and "inTable audioTable (ToLower E x)"
  shows "fst (mediaKindOfFileExt E x) = mkAudio \<and>
         snd (mediaKindOfFileExt E x) \<in> set (namesOf audioTable (ToLower E x))"
proof -
  have "set (rangeOrder E audioTable) = set audioTable"
    using assms(1) by (simp add: rangeVisitsAll_def)
  then obtain n where n: "kindOfFileExt E (MediaExt.table audioExt) (ToLower E x) = (n, True)"
    and m: "n \<in> set (namesOf audioTable (ToLower E x))"
    using assms(2) by (auto simp: audioExt_def elim: kindOfFileExt_hitE)
  have "mediaKindOfFileExt E x = (MediaExt.kind audioExt, n)"
    unfolding mediaKindOfFileExt_def Let_def by (rule firstKind_hit [OF n])
  with m show ?thesis
    by (simp add: audioExt_def)
qed

lemma media_video:
  assumes "rangeVisitsAll E" and "\<not> inTable audioTable (ToLower E x)"
    and "inTable videoTable (ToLower E x)"
  shows "fst (mediaKindOfFileExt E x) = mkVideo \<and>
         snd (mediaKindOfFileExt E x) \<in> set (namesOf videoTable (ToLower E x))"
proof -
  have a: "set (rangeOrder E audioTable) = set audioTable"
    and v: "set (rangeOrder E videoTable) = set videoTable"
    using assms(1) by (simp_all add: rangeVisitsAll_def)
  have na: "kindOfFileExt E (MediaExt.table audioExt) (ToLower E x) = ('''', False)"
    using kindOfFileExt_miss [OF a assms(2)] by (simp add: audioExt_def)
  obtain n where n: "kindOfFileExt E (MediaExt.table videoExt) (ToLower E x) = (n, True)"
    and m: "n \<in> set (namesOf videoTable (ToLower E x))"
    using v assms(3) by (auto simp: videoExt_def elim: kindOfFileExt_hitE)
  have "mediaKindOfFileExt E x = (MediaExt.kind videoExt, n)"
    unfolding mediaKindOfFileExt_def Let_def
    by (simp only: firstKind_miss [OF na] firstKind_hit [OF n])
  with m show ?thesis
    by (simp add: videoExt_def)
qed

lemma media_unknown:
  assumes "rangeVisitsAll E" and "\<not> inTable audioTable (ToLower E x)"
    and "\<not> inTable videoTable (ToLower E x)"
  shows "mediaKindOfFileExt E x = (mkUnknown, '''')"
proof -
  have a: "set (rangeOrder E audioTable) = set audioTable"
    and v: "set (rangeOrder E videoTable) = set videoTable"
    using assms(1) by (simp_all add: rangeVisitsAll_def)
  have na: "kindOfFileExt E (MediaExt.table audioExt) (ToLower E x) = ('''', False)"
    using kindOfFileExt_miss [OF a assms(2)] by (simp add: audioExt_def)
  have nv: "kindOfFileExt E (MediaExt.table videoExt) (ToLower E x) = ('''', False)"
    using kindOfFileExt_miss [OF v assms(3)] by (simp add: videoExt_def)
  show ?thesis
    unfolding mediaKindOfFileExt_def Let_def
    by (simp add: na nv)
qed

lemma support_subtitles:
  assumes "rangeVisitsAll E" and "inTable subsTable (ToLower E x)"
  shows "fst (mediaSupportKindOfFileExt E x) = mskSubtitles \<and>
         snd (mediaSupportKindOfFileExt E x) \<in> set (namesOf subsTable (ToLower E x))"
proof -
  have "set (rangeOrder E subsTable) = set subsTable"
    using assms(1) by (simp add: rangeVisitsAll_def)
  then obtain n where n: "kindOfFileExt E (MediaExt.table subsExt) (ToLower E x) = (n, True)"
    and m: "n \<in> set (namesOf subsTable (ToLower E x))"
    using assms(2) by (auto simp: subsExt_def elim: kindOfFileExt_hitE)
  have "mediaSupportKindOfFileExt E x = (MediaExt.kind subsExt, n)"
    unfolding mediaSupportKindOfFileExt_def Let_def by (rule firstKind_hit [OF n])
  with m show ?thesis
    by (simp add: subsExt_def)
qed

lemma support_unknown:
  assumes "rangeVisitsAll E" and "\<not> inTable subsTable (ToLower E x)"
  shows "mediaSupportKindOfFileExt E x = (mskUnknown, '''')"
proof -
  have s: "set (rangeOrder E subsTable) = set subsTable"
    using assms(1) by (simp add: rangeVisitsAll_def)
  have ns: "kindOfFileExt E (MediaExt.table subsExt) (ToLower E x) = ('''', False)"
    using kindOfFileExt_miss [OF s assms(2)] by (simp add: subsExt_def)
  show ?thesis
    unfolding mediaSupportKindOfFileExt_def Let_def
    by (simp add: ns)
qed

lemma rangeVisitsAll_testEnv: "rangeVisitsAll testEnv"
  by (simp add: rangeVisitsAll_def testEnv_def)

text \<open>
  C8. Whatever order the map iteration takes, the media lookup tries the audio table
  before the video table on the lower-cased extension: an extension listed in the audio
  table yields \<open>mkAudio\<close>, one listed in the video table only yields \<open>mkVideo\<close>, each with
  the type name of an entry of that table that lists it; an extension in neither yields
  \<open>mkUnknown\<close> and the empty name. The support lookup yields \<open>mskSubtitles\<close> with such a
  name for an extension of the subtitle table, and \<open>mskUnknown\<close> with the empty name for
  every other extension.
\<close>

theorem classification_lookup:
  assumes "rangeVisitsAll E"
  shows "(inTable audioTable (ToLower E x) \<longrightarrow>
            fst (mediaKindOfFileExt E x) = mkAudio \<and>
            snd (mediaKindOfFileExt E x) \<in> set (namesOf audioTable (ToLower E x))) \<and>
         (\<not> inTable audioTable (ToLower E x) \<and> inTable videoTable (ToLower E x) \<longrightarrow>
            fst (mediaKindOfFileExt E x) = mkVideo \<and>
            snd (mediaKindOfFileExt E x) \<in> set (namesOf videoTable (ToLower E x))) \<and>
         (\<not> inTable audioTable (ToLower E x) \<and> \<not> inTable videoTable (ToLower E x) \<longrightarrow>
            mediaKindOfFileExt E x = (mkUnknown, '''')) \<and>
         (inTable subsTable (ToLower E x) \<longrightarrow>
            fst (mediaSupportKindOfFileExt E x) = mskSubtitles \<and>
            snd (mediaSupportKindOfFileExt E x) \<in> set (namesOf subsTable (ToLower E x))) \<and>
         (\<not> inTable subsTable (ToLower E x) \<longrightarrow>
            mediaSupportKindOfFileExt E x = (mskUnknown, ''''))"
  using media_audio [OF assms] media_video [OF assms] media_unknown [OF assms]
    support_subtitles [OF assms] support_unknown [OF assms]
  by blast

theorem classification_lookup_witness:
  "rangeVisitsAll testEnv \<and>
   fst (mediaKindOfFileExt testEnv ''.MP3'') = mkAudio \<and>
   fst (mediaKindOfFileExt testEnv ''.Mkv'') = mkVideo \<and>
   mediaKindOfFileExt testEnv ''.txt'' = (mkUnknown, '''') \<and>
   fst (mediaSupportKindOfFileExt testEnv ''.SRT'') = mskSubtitles \<and>
   mediaSupportKindOfFileExt testEnv ''.mp3'' = (mskUnknown, '''')"
proof -
  have r: "rangeVisitsAll testEnv"
    by (simp add: rangeVisitsAll_def testEnv_def)
  have a1: "inTable audioTable (ToLower testEnv ''.MP3'')"
    by (simp add: inTable_def audioTable_def testEnv_def asciiLower_def)
  have a2: "\<not> inTable audioTable (ToLower testEnv ''.Mkv'')"
    by (simp add: inTable_def audioTable_def testEnv_def asciiLower_def)
  have v2: "inTable videoTable (ToLower testEnv ''.Mkv'')"
    by (simp add: inTable_def videoTable_def testEnv_def asciiLower_def)
  have a3: "\<not> inTable audioTable (ToLower testEnv ''.txt'')"
    by (simp add: inTable_def audioTable_def testEnv_def asciiLower_def)
  have v3: "\<not> inTable videoTable (ToLower testEnv ''.txt'')"
    by (simp add: inTable_def videoTable_def testEnv_def asciiLower_def)
  have s4: "inTable subsTable (ToLower testEnv ''.SRT'')"
    by (simp add: inTable_def subsTable_def testEnv_def asciiLower_def)
  have s5: "\<not> inTable subsTable (ToLower testEnv ''.mp3'')"
    by (simp add: inTable_def subsTable_def testEnv_def asciiLower_def)
  note c = classification_lookup [OF r]
  have k1: "fst (mediaKindOfFileExt testEnv ''.MP3'') = mkAudio"
    using c [of "''.MP3''", THEN conjunct1, rule_format, OF a1] by (rule conjunct1)
  have k2: "fst (mediaKindOfFileExt testEnv ''.Mkv'') = mkVideo"
    using c [of "''.Mkv''", THEN conjunct2, THEN conjunct1, rule_format, OF conjI [OF a2 v2]]
    by (rule conjunct1)
  have k3: "mediaKindOfFileExt testEnv ''.txt'' = (mkUnknown, '''')"
    by (rule c [of "''.txt''", THEN conjunct2, THEN conjunct2, THEN conjunct1, rule_format,
          OF conjI [OF a3 v3]])
  have k4: "fst (mediaSupportKindOfFileExt testEnv ''.SRT'') = mskSubtitles"
    using c [of "''.SRT''", THEN conjunct2, THEN conjunct2, THEN conjunct2, THEN conjunct1,
        rule_format, OF s4]
    by (rule conjunct1)
  have k5: "mediaSupportKindOfFileExt testEnv ''.mp3'' = (mskUnknown, '''')"
    by (rule c [of "''.mp3''", THEN conjunct2, THEN conjunct2, THEN conjunct2, THEN conjunct2,
          rule_format, OF s5])
  from r k1 k2 k3 k4 k5 show ?thesis
    by (intro conjI)
qed

section \<open>Properties of the record round trip\<close>

lemma audio_record_keys:
  "AudioMedia_toRecord a ''absPath'' = Some (VString (Media.absPath a))"
  "AudioMedia_toRecord a ''relPath'' = Some (VString (Media.relPath a))"
  "AudioMedia_toRecord a ''size'' = Some (VInt64 (Media.size a))"
  by (simp_all add: AudioMedia_toRecord_def mediaEntries_def)

lemma video_record_keys:
  "VideoMedia_toRecord a ''absPath'' = Some (VString (Media.absPath a))"
  "VideoMedia_toRecord a ''relPath'' = Some (VString (Media.relPath a))"
  "VideoMedia_toRecord a ''size'' = Some (VInt64 (Media.size a))"
  by (simp_all add: VideoMedia_toRecord_def mediaEntries_def)

lemma runSteps_size_panics:
  assumes "r ''absPath'' = Some (VString p)" and "r ''relPath'' = Some (VString q)"
    and "r ''size'' = Some (VInt64 n)"
  shows "runSteps (mediaSteps C r @ rest) m = Inl (TypeAssertion ''size'')"
  using assms
  by (simp add: mediaSteps_def stringKey_def floatKey_def onKey_def asString_def asFloat64_def)

lemma runSteps_append:
  "runSteps (xs @ ys) m = (case runSteps xs m of Inl p \<Rightarrow> Inl p | Inr m' \<Rightarrow> runSteps ys m')"
  by (induction xs arbitrary: m) (auto split: sum.splits)

lemma runSteps_snoc:
  "runSteps (xs @ [s]) m = (case runSteps xs m of Inl p \<Rightarrow> Inl p | Inr m' \<Rightarrow> s m')"
  by (simp add: runSteps_append split: sum.splits)

lemma runSteps_last_panics:
  assumes "\<And>a. s a = Inl p"
  shows "\<exists>q. runSteps (xs @ [s]) m = Inl q"
  by (cases "runSteps xs m") (simp_all add: runSteps_snoc assms)

lemma runSteps_keeps:
  assumes "\<forall>step \<in> set steps. \<forall>a b. step a = Inr b \<longrightarrow> P b = P a"
    and "runSteps steps m = Inr m'"
  shows "P m' = P m"
  using assms
proof (induction steps arbitrary: m)
  case Nil
  then show ?case by simp
next
  case (Cons s steps)
  then show ?case
    by (cases "s m") (auto split: sum.splits)
qed

text \<open>
  A record as the document store hands it back has every number as a \<^verbatim>\<open>float64\<close>; on
  such a record the assertion \<^verbatim>\<open>v.(int)\<close> for the track panics as well.
\<close>

lemma audio_fromRecord_float_track_panics:
  assumes "r ''track'' = Some (VFloat64 x)"
  shows "\<exists>p. AudioMedia_fromRecord C m r = Inl p"
proof -
  have split: "\<And>xs a b. xs @ [a, b] = (xs @ [a]) @ [b]"
    by simp
  show ?thesis
    unfolding AudioMedia_fromRecord_def split
    by (rule runSteps_last_panics [where p = "TypeAssertion ''track''"])
      (simp add: onKey_def asInt_def assms)
qed

text \<open>
  Whatever the record holds, \<^verbatim>\<open>(*VideoMedia).fromRecord\<close> leaves the selected subtitles of
  its receiver as they were: the step for the key \<^verbatim>\<open>"subtitles"\<close> assigns nothing.
\<close>

lemma stringKey_keeps:
  assumes "\<And>s a. P (upd s a) = P a"
  shows "stringKey r k upd a = Inr b \<Longrightarrow> P b = P a"
  using assms
  by (auto simp: stringKey_def onKey_def asString_def split: option.splits Value.splits sum.splits)

lemma floatKey_keeps:
  assumes "\<And>s a. P (upd s a) = P a"
  shows "floatKey r k upd a = Inr b \<Longrightarrow> P b = P a"
  using assms
  by (auto simp: floatKey_def onKey_def asFloat64_def split: option.splits Value.splits sum.splits)

lemma mediaSteps_keep_subtitles:
  "\<forall>step \<in> set (mediaSteps C r). \<forall>a b :: VideoMedia. step a = Inr b \<longrightarrow> subtitles b = subtitles a"
  unfolding mediaSteps_def
  by (auto simp: onKey_def split: option.splits
      elim!: stringKey_keeps [rotated] floatKey_keeps [rotated])

lemma video_fromRecord_keeps_subtitles:
  assumes "VideoMedia_fromRecord C m r = Inr m'"
  shows "subtitles m' = subtitles m"
  using assms unfolding VideoMedia_fromRecord_def
  apply (rule runSteps_keeps [rotated])
  using mediaSteps_keep_subtitles [of C r]
  apply (auto simp: onKey_def split: option.splits sum.splits)
  done

text \<open>
  C5. Deserializing the record that \<^verbatim>\<open>toRecord()\<close> has just built does not return an
  entity: \<^verbatim>\<open>toRecord()\<close> stores the size as an \<^verbatim>\<open>int64\<close>, \<^verbatim>\<open>fromRecord()\<close> asserts it to be
  a \<^verbatim>\<open>float64\<close>, and the assertion panics, for every audio and every video entity, every
  receiver and every conversion table; so no path, size, modification time or
  kind-specific field comes back.
\<close>

theorem fromRecord_of_toRecord_panics:
  "AudioMedia_fromRecord C m (AudioMedia_toRecord a) = Inl (TypeAssertion ''size'') \<and>
   VideoMedia_fromRecord C m' (VideoMedia_toRecord v) = Inl (TypeAssertion ''size'')"
  unfolding AudioMedia_fromRecord_def VideoMedia_fromRecord_def
  by (simp only: runSteps_size_panics [OF audio_record_keys]
      runSteps_size_panics [OF video_record_keys])

section \<open>The traversal: basic facts and an induction rule\<close>

lemma emit_simps [simp]:
  "lib (emit e s) = lib s" "busy (emit e s) = busy s" "isCLIMode (emit e s) = isCLIMode s"
  "trace (emit e s) = trace s @ [e]" "ticks (emit e s) = ticks s"
  by (simp_all add: emit_def)

lemma withDb_simps [simp]:
  "db (lib (withDb d s)) = d" "busy (withDb d s) = busy s" "isCLIMode (withDb d s) = isCLIMode s"
  "trace (withDb d s) = trace s" "ticks (withDb d s) = ticks s"
  "Library.absPath (lib (withDb d s)) = Library.absPath (lib s)"
  "maxDepth (lib (withDb d s)) = maxDepth (lib s)"
  "scanStart (lib (withDb d s)) = scanStart (lib s)"
  "loadStart (lib (withDb d s)) = loadStart (lib s)"
  "scanElapsed (lib (withDb d s)) = scanElapsed (lib s)"
  "loadElapsed (lib (withDb d s)) = loadElapsed (lib s)"
  "lastScan (lib (withDb d s)) = lastScan (lib s)"
  "Library.name (lib (withDb d s)) = Library.name (lib s)"
  by (simp_all add: withDb_def)

lemma setCol_withDb:
  "setCol c k x s = withDb ((db (lib s))\<lparr> col := (col (db (lib s)))(c := (col (db (lib s)) c)(k := x)) \<rparr>) s"
  by (simp add: setCol_def withDb_def)

lemma countScan_withDb:
  "countScan c k s = withDb ((db (lib s))\<lparr> numRecordsScan :=
       (numRecordsScan (db (lib s)))(c := (numRecordsScan (db (lib s)) c)(k := numRecordsScan (db (lib s)) c k + 1)) \<rparr>) s"
  by (simp add: countScan_def withDb_def)

lemma scanDive_induct:
  assumes dive: "\<And>st ents path depth s.
      (\<And>rel fi dirName.
          \<lbrakk>Rel E (Library.absPath (lib s)) path = Some rel; st = Some fi;
           0 < (fiMode fi AND ModeDir);
           \<not> (depthUnlimited \<noteq> maxDepth (lib s) \<and> maxDepth (lib s) < depth);
           ents = Some dirName\<rbrakk>
          \<Longrightarrow> Q dirName path depth (emit (EvOpenDir path) (emit (EvLstat path depth) s))) \<Longrightarrow>
      P (Node st ents) path depth s"
    and nil: "\<And>path depth s. Q [] path depth s"
    and cons: "\<And>n child dirName path depth s.
      \<lbrakk>P child (path_Join path n) (depth + 1) s;
       \<And>x y. (x, y) = scanDive E W ph child (path_Join path n) (depth + 1) s \<Longrightarrow>
             Q dirName path depth (case x of None \<Rightarrow> y | Some rc \<Rightarrow> emit (EvWarn rc) y)\<rbrakk>
      \<Longrightarrow> Q ((n, child) # dirName) path depth s"
  shows "P node p d s" and "Q ents p d s"
proof -
  have "(E' = E \<and> W' = W \<and> ph' = ph \<longrightarrow> P node p d s)"
    and "(E' = E \<and> W' = W \<and> ph' = ph \<longrightarrow> Q ents p d s)" for E' W' ph'
  proof (induction E' W' ph' node p d s and E' W' ph' ents p d s rule: scanDive_scanEntries.induct)
    case (1 E' W' ph' st ents path depth s)
    show ?case
    proof (intro impI)
      assume eq: "E' = E \<and> W' = W \<and> ph' = ph"
      show "P (Node st ents) path depth s"
      proof (rule dive)
        fix rel fi dirName
        assume "Rel E (Library.absPath (lib s)) path = Some rel" "st = Some fi"
          "0 < (fiMode fi AND ModeDir)"
          "\<not> (depthUnlimited \<noteq> maxDepth (lib s) \<and> maxDepth (lib s) < depth)"
          "ents = Some dirName"
        then show "Q dirName path depth (emit (EvOpenDir path) (emit (EvLstat path depth) s))"
          using 1 [of rel "emit (EvLstat path depth) s" fi "emit (EvOpenDir path) (emit (EvLstat path depth) s)" dirName] eq
          by simp
      qed
    qed
  next
    case (2 E' W' ph' path depth s)
    show ?case by (simp add: nil)
  next
    case (3 E' W' ph' n child dirName path depth s)
    show ?case
    proof (intro impI)
      assume eq: "E' = E \<and> W' = W \<and> ph' = ph"
      show "Q ((n, child) # dirName) path depth s"
      proof (rule cons)
        show "P child (path_Join path n) (depth + 1) s"
          using 3(1) eq by simp
        fix x y
        assume "(x, y) = scanDive E W ph child (path_Join path n) (depth + 1) s"
        then show "Q dirName path depth (case x of None \<Rightarrow> y | Some rc \<Rightarrow> emit (EvWarn rc) y)"
          using 3(2) [of x y] eq by simp
      qed
    qed
  qed
  then show "P node p d s" and "Q ents p d s"
    by simp_all
qed

lemma scanDive_inv:
  assumes fl: "\<And>path rel fi s. I s \<Longrightarrow> I (snd (scanFile E W ph path rel fi s))"
    and em: "\<And>e s. I s \<Longrightarrow> I (emit e s)"
  shows "I s \<Longrightarrow> I (snd (scanDive E W ph node p d s))"
    and "I s \<Longrightarrow> I (scanEntries E W ph ents p d s)"
proof (induction node p d s and ents p d s rule: scanDive_induct [where E = E and W = W and ph = ph])
  case (1 st ents path depth s)
  show ?case
  proof (cases "Rel E (Library.absPath (lib s)) path")
    case None
    then show ?thesis using 1(2) by simp
  next
    case (Some rel)
    note rel = Some
    show ?thesis
    proof (cases st)
      case None
      then show ?thesis using 1(2) rel by (simp add: em)
    next
      case (Some fi)
      then show ?thesis
        using 1 rel by (auto simp: Let_def split: option.splits intro!: em fl)
    qed
  qed
next
  case (2 path depth s)
  then show ?case by simp
next
  case (3 n child dirName path depth s)
  show ?case
  proof (cases "scanDive E W ph child (path_Join path n) (depth + 1) s")
    case (Pair x y)
    then have "I y" using 3(1) [OF 3(3)] by simp
    then have "I (case x of None \<Rightarrow> y | Some rc \<Rightarrow> emit (EvWarn rc) y)"
      by (cases x) (simp_all add: em)
    then show ?thesis
      using 3(2) [of x y] Pair by simp
  qed
qed

section \<open>What the traversal leaves alone\<close>

lemma framedD:
  assumes "framed f"
  shows "f (emit e s) = f s" and "f (withDb d s) = f s" and "f (s\<lparr> ticks := n \<rparr>) = f s"
    and "f (setCol c k x s) = f s" and "f (countScan c k s) = f s"
    and "f (snd (time_Now W s)) = f s"
  using assms by (simp_all add: framed_def setCol_withDb countScan_withDb time_Now_def)

lemma notify_framed:
  assumes "framed f"
  shows "f (notifyMedia ph p i s) = f s" and "f (notifySupport ph p i s) = f s"
    and "f (notifyOther ph p s) = f s"
  using framedD(1) [OF assms]
  by (simp_all add: notifyMedia_def notifySupport_def notifyOther_def split: option.splits)

lemma seenFile_framed:
  assumes "framed f"
  shows "f (snd (seenFile s c k p)) = f s"
  using framedD(1) [OF assms]
  by (simp add: seenFile_def Let_def split: sum.splits)

lemma insertNew_framed:
  assumes "framed f"
  shows "f (snd (insertNew W ph c k p r s)) = f s"
  using framedD [OF assms] notify_framed [OF assms]
  by (simp add: insertNew_def Let_def split: option.splits sum.splits prod.splits)

lemma build_framed:
  assumes "framed f"
  shows "f (snd (audioRecord W p rel e en fi s)) = f s"
    and "f (snd (videoRecord W p rel e en fi s)) = f s"
    and "f (snd (subtitlesRecord p rel e en fi s)) = f s"
  using framedD(3) [OF assms]
  by (simp_all add: audioRecord_def videoRecord_def subtitlesRecord_def time_Now_def)

lemma indexNew_framed:
  assumes "framed f" and "\<And>s. f (snd (build s)) = f s"
  shows "f (snd (indexNew W ph c k p build s)) = f s"
proof (cases "seenFile s c k p")
  case (Pair res s1)
  have s1: "f s1 = f s"
    using seenFile_framed [OF assms(1), of s c k p] Pair by simp
  show ?thesis
  proof (cases res)
    case (Inl err)
    then show ?thesis using Pair s1 by (simp add: indexNew_def)
  next
    case (Inr seen)
    show ?thesis
    proof (cases "build s1")
      case (Pair r s2)
      have "f s2 = f s1" using assms(2) [of s1] Pair by simp
      then show ?thesis
        using \<open>seenFile s c k p = (res, s1)\<close> Inr Pair s1 insertNew_framed [OF assms(1), of W ph c k p r s2]
        by (simp add: indexNew_def)
    qed
  qed
qed

lemma scanFile_framed:
  assumes "framed f"
  shows "f (snd (scanFile E W ph p rel fi s)) = f s"
  by (simp add: scanFile_def Let_def indexNew_framed [OF assms] build_framed [OF assms]
      notify_framed [OF assms] split: prod.splits)

lemma scanDive_framed:
  assumes "framed f"
  shows "f (snd (scanDive E W ph node p d s)) = f s"
    and "f (scanEntries E W ph ents p d s) = f s"
proof -
  define I where "I s' \<longleftrightarrow> f s' = f s" for s'
  have a: "\<And>path rel fi s. I s \<Longrightarrow> I (snd (scanFile E W ph path rel fi s))"
    by (simp add: I_def scanFile_framed [OF assms])
  have b: "\<And>e s. I s \<Longrightarrow> I (emit e s)"
    by (simp add: I_def framedD(1) [OF assms])
  have "I s" by (simp add: I_def)
  from scanDive_inv(1) [of I E W ph, OF a b this] scanDive_inv(2) [of I E W ph, OF a b this]
  show "f (snd (scanDive E W ph node p d s)) = f s"
    and "f (scanEntries E W ph ents p d s) = f s"
    by (simp_all add: I_def)
qed

lemma candidates_framed:
  assumes "framed f"
  shows "f (snd (snd (candidates W os rm s))) = f s"
proof (induction os arbitrary: rm s)
  case Nil
  then show ?case by simp
next
  case (Cons x os)
  obtain i r where x: "x = (i, r)" by (cases x)
  obtain res d where fc: "findCandidates W (db (lib (emit (EvCandidates i) s))) i r = (res, d)"
    by (cases "findCandidates W (db (lib (emit (EvCandidates i) s))) i r")
  show ?case
    using Cons.IH fc framedD(1,2) [OF assms]
    by (cases res) (simp_all add: x Let_def)
qed

lemma recandidate_framed:
  assumes "framed f"
  shows "f (snd (recandidateSubtitles W force s)) = f s"
  using candidates_framed [OF assms]
  by (auto simp: recandidateSubtitles_def Let_def split: prod.splits option.splits
      dest!: arg_cong [where f = "\<lambda>x. snd (snd x)"])

section \<open>Admission, completion and the busy error\<close>

lemma loadDocs_framed:
  assumes "framed f"
  shows "f (snd (loadDocs ph c k ds n s)) = f s"
  by (induction ds arbitrary: n s) (auto simp: notify_framed [OF assms])

lemma loadDive_framed:
  assumes "framed f"
  shows "f (snd (loadDive ph c k s)) = f s"
  using loadDocs_framed [OF assms, of ph c k "docs (colOf s c k)" 0 s]
  by (cases "loadDocs ph c k (docs (colOf s c k)) 0 s") (simp add: loadDive_def)

lemma loadDive_no_error: "snd (fst (loadDive ph c k s)) = None"
  by (simp add: loadDive_def split: prod.splits)

lemma loadAll_framed:
  assumes "framed f"
  shows "f (snd (loadAll ph cks s)) = f s"
proof (induction cks arbitrary: s)
  case Nil
  then show ?case by simp
next
  case (Cons ck cks)
  obtain c k where ck: "ck = (c, k)" by (cases ck)
  obtain n err s1 where ld: "loadDive ph c k s = ((n, err), s1)"
    by (cases "loadDive ph c k s") auto
  have "f s1 = f s"
    using loadDive_framed [OF assms, of ph c k s] ld by simp
  then show ?case
    using Cons.IH ld framedD(2) [OF assms]
    by (cases err) (simp_all add: ck Let_def)
qed

lemma loadAll_no_error: "fst (loadAll ph cks s) = None"
proof (induction cks arbitrary: s)
  case Nil
  then show ?case by simp
next
  case (Cons ck cks)
  obtain c k where ck: "ck = (c, k)" by (cases ck)
  obtain n err s1 where ld: "loadDive ph c k s = ((n, err), s1)"
    by (cases "loadDive ph c k s") auto
  have "err = None"
    using loadDive_no_error [of ph c k s] ld by simp
  then show ?case
    using Cons.IH ld by (simp add: ck Let_def)
qed

lemma framed_instances:
  "framed (\<lambda>s. scanStart (lib s))" "framed (\<lambda>s. loadStart (lib s))" "framed busy"
  "framed isCLIMode" "framed (\<lambda>s. Library.absPath (lib s))" "framed (\<lambda>s. maxDepth (lib s))"
  "framed (\<lambda>s. lastScan (lib s))" "framed (\<lambda>s. scanElapsed (lib s))"
  "framed (\<lambda>s. loadElapsed (lib s))"
  by (simp_all add: framed_def)

text \<open>The state right after admission: the token is in the channel, the busy counter raised.\<close>

lemma gate_free_empty: "\<not> gateHeld ch \<Longrightarrow> ch = []"
  by (cases ch) (simp_all add: gateHeld_def maxLibraryScanners_def)

lemma trySend_empty: "trySend [] maxLibraryScanners t = Some [t]"
  by (simp add: trySend_def maxLibraryScanners_def)

lemma trySend_held: "gateHeld ch \<Longrightarrow> trySend ch maxLibraryScanners t = None"
  by (simp add: gateHeld_def trySend_def)

lemma trySend_fills: "trySend ch maxLibraryScanners t = Some ch' \<Longrightarrow> gateHeld ch'"
  by (auto simp: gateHeld_def trySend_def maxLibraryScanners_def split: if_splits)

lemma scan_busy:
  assumes "gateHeld (scanStart (lib s))"
  shows "scan E W ph root s = (Some (0, Some rcLibraryBusy), s\<lparr> ticks := ticks s + 1 \<rparr>)"
  using trySend_held [OF assms] by (simp add: scan_def time_Now_def)

lemma load_busy:
  assumes "gateHeld (loadStart (lib s))"
  shows "load W ph s = (Some (0, Some rcLibraryBusy), s\<lparr> ticks := ticks s + 1 \<rparr>)"
  using trySend_held [OF assms] by (simp add: load_def time_Now_def)

lemma inc_passes: "fst (inc b) \<noteq> None \<longleftrightarrow> 0 < receivers (changed b)"
  by (simp add: inc_def send_def Let_def)

lemma dec_passes: "fst (dec b) \<noteq> None \<longleftrightarrow> 0 < receivers (changed b)"
  by (simp add: dec_def send_def Let_def)

lemma busyInc_simps [simp]:
  "lib (snd (busyInc s)) = lib s" "isCLIMode (snd (busyInc s)) = isCLIMode s"
  "trace (snd (busyInc s)) = trace s" "ticks (snd (busyInc s)) = ticks s"
  "busy (snd (busyInc s)) = (if isCLIMode s then busy s else snd (inc (busy s)))"
  "fst (busyInc s) \<longleftrightarrow> isCLIMode s \<or> 0 < receivers (changed (busy s))"
  using inc_passes [of "busy s"] by (simp_all add: busyInc_def split_beta)

lemma busyDec_simps [simp]:
  "lib (snd (busyDec s)) = lib s" "isCLIMode (snd (busyDec s)) = isCLIMode s"
  "trace (snd (busyDec s)) = trace s" "ticks (snd (busyDec s)) = ticks s"
  "busy (snd (busyDec s)) = (if isCLIMode s then busy s else snd (dec (busy s)))"
  "fst (busyDec s) \<longleftrightarrow> isCLIMode s \<or> 0 < receivers (changed (busy s))"
  using dec_passes [of "busy s"] by (simp_all add: busyDec_def split_beta)

lemma scanBegun_simps [simp]:
  "scanStart (lib (scanBegun W s)) = scanStart (lib s) @ [clock W (ticks s)]"
  "loadStart (lib (scanBegun W s)) = loadStart (lib s)"
  "Library.absPath (lib (scanBegun W s)) = Library.absPath (lib s)"
  "maxDepth (lib (scanBegun W s)) = maxDepth (lib s)"
  "db (lib (scanBegun W s)) = db (lib s)"
  "isCLIMode (scanBegun W s) = isCLIMode s" "trace (scanBegun W s) = trace s"
  "busy (scanBegun W s) = (if isCLIMode s then busy s else snd (inc (busy s)))"
  by (simp_all add: scanBegun_def time_Now_def)

lemma loadBegun_simps [simp]:
  "loadStart (lib (loadBegun W s)) = loadStart (lib s) @ [clock W (ticks s)]"
  "scanStart (lib (loadBegun W s)) = scanStart (lib s)"
  "db (lib (loadBegun W s)) = db (lib s)"
  "isCLIMode (loadBegun W s) = isCLIMode s" "trace (loadBegun W s) = trace s"
  "busy (loadBegun W s) = (if isCLIMode s then busy s else snd (inc (busy s)))"
  by (simp_all add: loadBegun_def time_Now_def)

text \<open>An admitted call whose \<^verbatim>\<open>inc()\<close> blocks stays in the state right after admission.\<close>

lemma scan_blocked:
  assumes "\<not> gateHeld (scanStart (lib s))" and "\<not> isCLIMode s"
    and "receivers (changed (busy s)) = 0"
  shows "scan E W ph root s = (None, scanBegun W s)"
  using gate_free_empty [OF assms(1)] assms(2,3)
  by (simp add: scan_def scanBegun_def time_Now_def trySend_empty split_beta bool.case_eq_if)

lemma load_blocked:
  assumes "\<not> gateHeld (loadStart (lib s))" and "\<not> isCLIMode s"
    and "receivers (changed (busy s)) = 0"
  shows "load W ph s = (None, loadBegun W s)"
  using gate_free_empty [OF assms(1)] assms(2,3)
  by (simp add: load_def loadBegun_def time_Now_def trySend_empty split_beta bool.case_eq_if)

lemma scan_unfold:
  assumes "\<not> gateHeld (scanStart (lib s))"
    and "isCLIMode s \<or> 0 < receivers (changed (busy s))"
  shows "scan E W ph root s =
     (case scanDive E W ph root (Library.absPath (lib s)) 1 (scanBegun W s) of
        (err, s3) \<Rightarrow>
          scanDone W err (if err = None then snd (recandidateSubtitles W False s3) else s3))"
  using gate_free_empty [OF assms(1)] assms(2)
  by (simp add: scan_def scanBegun_def time_Now_def trySend_empty Let_def split_beta bool.case_eq_if)

lemma load_unfold:
  assumes "\<not> gateHeld (loadStart (lib s))"
    and "isCLIMode s \<or> 0 < receivers (changed (busy s))"
  shows "load W ph s =
     (case loadAll ph classKinds (loadBegun W s) of
        (Some err, s3) \<Rightarrow> (Some (0, Some err), s3)
      | (None, s3) \<Rightarrow> loadDone W s3)"
  using gate_free_empty [OF assms(1)] assms(2)
  by (simp add: load_def loadBegun_def time_Now_def trySend_empty Let_def split_beta bool.case_eq_if)

text \<open>
  The end of an operation that holds the token: the gate is freed, and the call returns
  exactly when \<^verbatim>\<open>dec()\<close> is not called or its value is received.
\<close>

lemma scanDone_outcome:
  assumes "scanStart (lib s4) = [t]"
  shows "fst (scanDone W err s4) \<noteq> None \<longleftrightarrow> isCLIMode s4 \<or> 0 < receivers (changed (busy s4))"
    and "fst (scanDone W err s4) \<noteq> None \<Longrightarrow> map_option snd (fst (scanDone W err s4)) = Some err"
    and "scanStart (lib (snd (scanDone W err s4))) = []"
    and "loadStart (lib (snd (scanDone W err s4))) = loadStart (lib s4)"
    and "busy (snd (scanDone W err s4)) = (if isCLIMode s4 then busy s4 else snd (dec (busy s4)))"
    and "isCLIMode (snd (scanDone W err s4)) = isCLIMode s4"
    and "db (lib (snd (scanDone W err s4))) = db (lib s4)"
    and "trace (snd (scanDone W err s4)) = trace s4"
proof -
  let ?s8 = "s4\<lparr> ticks := ticks s4 + 1 + 1,
                 lib := (lib s4)\<lparr> lastScan := clock W (ticks s4), scanStart := [],
                                  scanElapsed := clock W (ticks s4 + 1) - t \<rparr> \<rparr>"
  have d: "scanDone W err s4 =
      ((if fst (busyDec ?s8) then Some (totalRecords (db (lib ?s8)) dmScan, err) else None),
       snd (busyDec ?s8))"
    using assms by (simp add: scanDone_def time_Now_def Let_def split_beta bool.case_eq_if)
  show "fst (scanDone W err s4) \<noteq> None \<longleftrightarrow> isCLIMode s4 \<or> 0 < receivers (changed (busy s4))"
    and "fst (scanDone W err s4) \<noteq> None \<Longrightarrow> map_option snd (fst (scanDone W err s4)) = Some err"
    and "scanStart (lib (snd (scanDone W err s4))) = []"
    and "loadStart (lib (snd (scanDone W err s4))) = loadStart (lib s4)"
    and "busy (snd (scanDone W err s4)) = (if isCLIMode s4 then busy s4 else snd (dec (busy s4)))"
    and "isCLIMode (snd (scanDone W err s4)) = isCLIMode s4"
    and "db (lib (snd (scanDone W err s4))) = db (lib s4)"
    and "trace (snd (scanDone W err s4)) = trace s4"
    unfolding d by (simp_all split: if_splits)
qed

lemma loadDone_outcome:
  assumes "loadStart (lib s3) = [t]"
  shows "fst (loadDone W s3) \<noteq> None \<longleftrightarrow> isCLIMode s3 \<or> 0 < receivers (changed (busy s3))"
    and "fst (loadDone W s3) \<noteq> None \<Longrightarrow> map_option snd (fst (loadDone W s3)) = Some None"
    and "loadStart (lib (snd (loadDone W s3))) = []"
    and "scanStart (lib (snd (loadDone W s3))) = scanStart (lib s3)"
    and "busy (snd (loadDone W s3)) = (if isCLIMode s3 then busy s3 else snd (dec (busy s3)))"
    and "isCLIMode (snd (loadDone W s3)) = isCLIMode s3"
    and "db (lib (snd (loadDone W s3))) = db (lib s3)"
    and "trace (snd (loadDone W s3)) = trace s3"
proof -
  let ?s5 = "s3\<lparr> ticks := ticks s3 + 1,
                 lib := (lib s3)\<lparr> loadStart := [], loadElapsed := clock W (ticks s3) - t \<rparr> \<rparr>"
  have d: "loadDone W s3 =
      ((if fst (busyDec ?s5) then Some (totalRecords (db (lib ?s5)) dmLoad, None) else None),
       snd (busyDec ?s5))"
    using assms by (simp add: loadDone_def time_Now_def Let_def split_beta bool.case_eq_if)
  show "fst (loadDone W s3) \<noteq> None \<longleftrightarrow> isCLIMode s3 \<or> 0 < receivers (changed (busy s3))"
    and "fst (loadDone W s3) \<noteq> None \<Longrightarrow> map_option snd (fst (loadDone W s3)) = Some None"
    and "loadStart (lib (snd (loadDone W s3))) = []"
    and "scanStart (lib (snd (loadDone W s3))) = scanStart (lib s3)"
    and "busy (snd (loadDone W s3)) = (if isCLIMode s3 then busy s3 else snd (dec (busy s3)))"
    and "isCLIMode (snd (loadDone W s3)) = isCLIMode s3"
    and "db (lib (snd (loadDone W s3))) = db (lib s3)"
    and "trace (snd (loadDone W s3)) = trace s3"
    unfolding d by (simp_all split: if_splits)
qed

text \<open>
  An admitted call whose \<^verbatim>\<open>inc()\<close> is passed reaches its end: it frees the gate, lowers
  the busy counter when it has raised it, and returns exactly when \<^verbatim>\<open>dec()\<close> is passed.
\<close>

lemma scan_admitted:
  assumes "\<not> gateHeld (scanStart (lib s))"
    and "isCLIMode s \<or> 0 < receivers (changed (busy s))"
  shows "fst (scan E W ph root s) \<noteq> None \<longleftrightarrow> isCLIMode s \<or> 2 \<le> receivers (changed (busy s))"
    and "fst (scan E W ph root s) \<noteq> None \<Longrightarrow> map_option snd (fst (scan E W ph root s)) =
           Some (fst (scanDive E W ph root (Library.absPath (lib s)) 1 (scanBegun W s)))"
    and "scanStart (lib (snd (scan E W ph root s))) = scanStart (lib s)"
    and "busy (snd (scan E W ph root s)) =
           (if isCLIMode s then busy s else snd (dec (snd (inc (busy s)))))"
    and "isCLIMode (snd (scan E W ph root s)) = isCLIMode s"
proof -
  let ?s2 = "scanBegun W s"
  obtain err s3 where sd: "scanDive E W ph root (Library.absPath (lib s)) 1 ?s2 = (err, s3)"
    by (cases "scanDive E W ph root (Library.absPath (lib s)) 1 ?s2")
  define s4 where "s4 = (if err = None then snd (recandidateSubtitles W False s3) else s3)"
  note fr = framed_instances
  have e: "scanStart (lib s) = []"
    using gate_free_empty [OF assms(1)] by simp
  have p3: "scanStart (lib s3) = scanStart (lib ?s2)" "busy s3 = busy ?s2" "isCLIMode s3 = isCLIMode ?s2"
    using scanDive_framed(1) [OF fr(1), of E W ph root "Library.absPath (lib s)" 1 ?s2]
      scanDive_framed(1) [OF fr(3), of E W ph root "Library.absPath (lib s)" 1 ?s2]
      scanDive_framed(1) [OF fr(4), of E W ph root "Library.absPath (lib s)" 1 ?s2] sd
    by simp_all
  have p4: "scanStart (lib s4) = scanStart (lib s3)" "busy s4 = busy s3" "isCLIMode s4 = isCLIMode s3"
    using recandidate_framed [OF fr(1), of W False s3] recandidate_framed [OF fr(3), of W False s3]
      recandidate_framed [OF fr(4), of W False s3]
    by (simp_all add: s4_def)
  have g: "scanStart (lib s4) = [clock W (ticks s)]"
    using p3 p4 e by simp
  have c: "isCLIMode s4 = isCLIMode s"
    using p3 p4 by simp
  have b: "busy s4 = (if isCLIMode s then busy s else snd (inc (busy s)))"
    using p3 p4 by simp
  have r: "isCLIMode s4 \<or> 0 < receivers (changed (busy s4)) \<longleftrightarrow>
      isCLIMode s \<or> 2 \<le> receivers (changed (busy s))"
  proof (cases "isCLIMode s")
    case True
    then show ?thesis using c by simp
  next
    case False
    then have "0 < receivers (changed (busy s))" using assms(2) by simp
    then show ?thesis
      using False c b inc_returns(2) [of "busy s"] by auto
  qed
  have u: "scan E W ph root s = scanDone W err s4"
    using sd by (simp add: scan_unfold [OF assms] s4_def)
  note o = scanDone_outcome [OF g, of W err]
  show "fst (scan E W ph root s) \<noteq> None \<longleftrightarrow> isCLIMode s \<or> 2 \<le> receivers (changed (busy s))"
    unfolding u using o(1) r by simp
  show "fst (scan E W ph root s) \<noteq> None \<Longrightarrow> map_option snd (fst (scan E W ph root s)) =
           Some (fst (scanDive E W ph root (Library.absPath (lib s)) 1 (scanBegun W s)))"
    unfolding u using o(2) sd by simp
  show "scanStart (lib (snd (scan E W ph root s))) = scanStart (lib s)"
    unfolding u using o(3) e by simp
  show "busy (snd (scan E W ph root s)) =
           (if isCLIMode s then busy s else snd (dec (snd (inc (busy s)))))"
    unfolding u using o(5) b c by simp
  show "isCLIMode (snd (scan E W ph root s)) = isCLIMode s"
    unfolding u using o(6) c by simp
qed

lemma load_admitted:
  assumes "\<not> gateHeld (loadStart (lib s))"
    and "isCLIMode s \<or> 0 < receivers (changed (busy s))"
  shows "fst (load W ph s) \<noteq> None \<longleftrightarrow> isCLIMode s \<or> 2 \<le> receivers (changed (busy s))"
    and "fst (load W ph s) \<noteq> None \<Longrightarrow> map_option snd (fst (load W ph s)) = Some None"
    and "loadStart (lib (snd (load W ph s))) = loadStart (lib s)"
    and "busy (snd (load W ph s)) =
           (if isCLIMode s then busy s else snd (dec (snd (inc (busy s)))))"
    and "isCLIMode (snd (load W ph s)) = isCLIMode s"
proof -
  let ?s2 = "loadBegun W s"
  obtain err s3 where la: "loadAll ph classKinds ?s2 = (err, s3)"
    by (cases "loadAll ph classKinds ?s2")
  have n: "err = None"
    using loadAll_no_error [of ph classKinds ?s2] la by simp
  note fr = framed_instances
  have e: "loadStart (lib s) = []"
    using gate_free_empty [OF assms(1)] by simp
  have p3: "loadStart (lib s3) = loadStart (lib ?s2)" "busy s3 = busy ?s2" "isCLIMode s3 = isCLIMode ?s2"
    using loadAll_framed [OF fr(2), of ph classKinds ?s2] loadAll_framed [OF fr(3), of ph classKinds ?s2]
      loadAll_framed [OF fr(4), of ph classKinds ?s2] la
    by simp_all
  have g: "loadStart (lib s3) = [clock W (ticks s)]"
    using p3 e by simp
  have c: "isCLIMode s3 = isCLIMode s"
    using p3 by simp
  have b: "busy s3 = (if isCLIMode s then busy s else snd (inc (busy s)))"
    using p3 by simp
  have r: "isCLIMode s3 \<or> 0 < receivers (changed (busy s3)) \<longleftrightarrow>
      isCLIMode s \<or> 2 \<le> receivers (changed (busy s))"
  proof (cases "isCLIMode s")
    case True
    then show ?thesis using c by simp
  next
    case False
    then have "0 < receivers (changed (busy s))" using assms(2) by simp
    then show ?thesis
      using False c b inc_returns(2) [of "busy s"] by auto
  qed
  have u: "load W ph s = loadDone W s3"
    by (simp add: load_unfold [OF assms] la n)
  note o = loadDone_outcome [OF g, of W]
  show "fst (load W ph s) \<noteq> None \<longleftrightarrow> isCLIMode s \<or> 2 \<le> receivers (changed (busy s))"
    unfolding u using o(1) r by simp
  show "fst (load W ph s) \<noteq> None \<Longrightarrow> map_option snd (fst (load W ph s)) = Some None"
    unfolding u using o(2) by simp
  show "loadStart (lib (snd (load W ph s))) = loadStart (lib s)"
    unfolding u using o(3) e by simp
  show "busy (snd (load W ph s)) =
           (if isCLIMode s then busy s else snd (dec (snd (inc (busy s)))))"
    unfolding u using o(5) b c by simp
  show "isCLIMode (snd (load W ph s)) = isCLIMode s"
    unfolding u using o(6) c by simp
qed

section \<open>Properties of load and scan\<close>

lemmas eval_defs = testEnv_def testWorld_def failingWorld_def testState_def testLib_def emptyDb_def emptyCol_def
  subsTree_def flatTree_def deepTree_def fileNode_def fileInfo_def dirInfo_def scanBegun_def time_Now_def busyInc_def
  filepath_Rel_def elements_def rooted_def path_Join_def emit_def ModeDir_def ModeSymlink_def ModeDevice_def ModeNamedPipe_def ModeSocket_def
  ModeCharDevice_def depthUnlimited_def Let_def scanFile_def indexNew_def seenFile_def insertNew_def
  audioRecord_def videoRecord_def subtitlesRecord_def path_Ext_def mediaKindOfFileExt_def supportKindOfFileExt_def
  mediaSupportKindOfFileExt_def kindOfFileExt_def audioExt_def videoExt_def subsExt_def audioTable_def videoTable_def
  subsTable_def asciiLower_def mkAudio_def mkVideo_def mkUnknown_def mskUnknown_def mskSubtitles_def skSubtitles_def
  ecMedia_def ecSupport_def ecUnknown_def ecCOUNT_def mxPath_def sxPath_def dbIndex_def mediaIndex_def supportIndex_def
  EvalQuery_def Insert_def colOf_def setCol_def countScan_def notifyMedia_def notifySupport_def notifyOther_def
  Subtitles_toRecord_def newSubtitles_def AudioMedia_toRecord_def mediaEntries_def newAudioMedia_def newMedia_def
  newBusyState_def

text \<open>
  C1. A successful send fills the gate; the traversal, the reconciliation and the loader
  leave the gate as it is, so it stays filled until the operation receives from it at its
  end. A call of \<^verbatim>\<open>scan()\<close> (of \<^verbatim>\<open>load()\<close>) that finds its gate filled returns the
  \<^verbatim>\<open>LibraryBusy\<close> error with a count of zero, and the state it leaves differs from the one
  it found in the number of clock readings only: the library (record counts, elapsed
  durations, \<^verbatim>\<open>lastScan\<close>), the busy counter and the events (no \<^verbatim>\<open>Lstat\<close>, no directory
  listing, no query, no insert) are unchanged.
\<close>

theorem busy_gate_rejects:
  "(trySend ch maxLibraryScanners t = Some ch' \<longrightarrow> gateHeld ch') \<and>
   scanStart (lib (snd (scanDive E W ph node p d s))) = scanStart (lib s) \<and>
   scanStart (lib (snd (recandidateSubtitles W force s))) = scanStart (lib s) \<and>
   loadStart (lib (snd (loadAll ph cks s))) = loadStart (lib s) \<and>
   (gateHeld (scanStart (lib s)) \<longrightarrow>
      scan E W ph root s = (Some (0, Some rcLibraryBusy), s\<lparr> ticks := ticks s + 1 \<rparr>)) \<and>
   (gateHeld (loadStart (lib s)) \<longrightarrow>
      load W ph s = (Some (0, Some rcLibraryBusy), s\<lparr> ticks := ticks s + 1 \<rparr>))"
  using trySend_fills [of ch t ch'] scanDive_framed(1) [OF framed_instances(1), of E W ph node p d s]
    recandidate_framed [OF framed_instances(1), of W force s]
    loadAll_framed [OF framed_instances(2), of ph cks s]
    scan_busy [of s E W ph root] load_busy [of s W ph]
  by simp

theorem busy_gate_rejects_witness:
  "gateHeld (scanStart (lib heldState)) \<and> gateHeld (loadStart (lib heldState)) \<and>
   scan testEnv testWorld None flatTree heldState =
     (Some (0, Some rcLibraryBusy), heldState\<lparr> ticks := ticks heldState + 1 \<rparr>) \<and>
   load testWorld None heldState =
     (Some (0, Some rcLibraryBusy), heldState\<lparr> ticks := ticks heldState + 1 \<rparr>)"
proof -
  have g: "gateHeld (scanStart (lib heldState))" "gateHeld (loadStart (lib heldState))"
    by (simp_all add: heldState_def gateHeld_def maxLibraryScanners_def)
  note c = busy_gate_rejects [where s = heldState and E = testEnv and W = testWorld and ph = None
      and root = flatTree]
  have s: "scan testEnv testWorld None flatTree heldState =
     (Some (0, Some rcLibraryBusy), heldState\<lparr> ticks := ticks heldState + 1 \<rparr>)"
    using c g(1) by blast
  have l: "load testWorld None heldState =
     (Some (0, Some rcLibraryBusy), heldState\<lparr> ticks := ticks heldState + 1 \<rparr>)"
    using c g(2) by blast
  from g s l show ?thesis by simp
qed

lemma dec_inc_taken:
  assumes "2 \<le> receivers (changed b)"
  shows "taken (changed (snd (dec (snd (inc b))))) = taken (changed b) @ [busyCount b + 1, busyCount b]"
proof -
  have i: "0 < receivers (changed b)" using assms by simp
  have "0 < receivers (changed (snd (inc b)))"
    using inc_returns(2) [OF i] assms by simp
  from dec_returns(2) [OF this] show ?thesis
    using inc_returns(2) [OF i] by (simp add: inc_busyCount)
qed

lemma watchedState_simps:
  "\<not> gateHeld (scanStart (lib (watchedState cli n)))"
  "\<not> gateHeld (loadStart (lib (watchedState cli n)))"
  "isCLIMode (watchedState cli n) = cli"
  "receivers (changed (busy (watchedState cli n))) = n"
  "taken (changed (busy (watchedState cli n))) = []"
  "busyCount (busy (watchedState cli n)) = 0"
  by (simp_all add: watchedState_def testState_def testLib_def newBusyState_def gateHeld_def
      maxLibraryScanners_def)

text \<open>
  C2, as stated, fails in CLI mode: there an admitted \<^verbatim>\<open>scan()\<close> returns with the busy
  state it found, and nothing was received from \<^verbatim>\<open>changed\<close> although two receive
  operations were ready, where one increment and one decrement would have delivered the
  counts 1 and 0.
\<close>

theorem cli_scan_skips_busy_counter:
  "busyAfter (scan testEnv testWorld None flatTree (watchedState True 2)) =
     Some (busy (watchedState True 2)) \<and>
   taken (changed (busy (watchedState True 2))) = [] \<and>
   taken (changed (snd (dec (snd (inc (busy (watchedState True 2))))))) = [1, 0]"
proof -
  note w = watchedState_simps [of True 2]
  have c: "isCLIMode (watchedState True 2) \<or> 0 < receivers (changed (busy (watchedState True 2)))"
    using w(3) by simp
  note a = scan_admitted [OF w(1) c, of testEnv testWorld None flatTree]
  have r: "fst (scan testEnv testWorld None flatTree (watchedState True 2)) \<noteq> None"
    using a(1) w(3) by simp
  have b: "busy (snd (scan testEnv testWorld None flatTree (watchedState True 2))) =
      busy (watchedState True 2)"
    using a(4) w(3) by simp
  have x: "busyAfter (scan testEnv testWorld None flatTree (watchedState True 2)) =
      Some (busy (watchedState True 2))"
    using r b by (auto simp: busyAfter_def)
  have "2 \<le> receivers (changed (busy (watchedState True 2)))"
    using w(4) by simp
  from dec_inc_taken [OF this]
  have y: "taken (changed (snd (dec (snd (inc (busy (watchedState True 2))))))) = [1, 0]"
    using w(5,6) by simp
  from x w(5) y show ?thesis by simp
qed

text \<open>
  C2, amended. In CLI mode an admitted \<^verbatim>\<open>scan()\<close> or \<^verbatim>\<open>load()\<close> returns with its gate free
  again and the busy state untouched. Outside CLI mode the busy counter is raised once
  after admission and lowered once after the gate is freed, each time with a blocking send
  on \<^verbatim>\<open>changed\<close>: when both values are received, the call returns, its gate is free again
  and the busy state is the one found with one \<^verbatim>\<open>inc()\<close> and then one \<^verbatim>\<open>dec()\<close> applied
  (the count is back at its value, the two counts were delivered); when no value is
  received, the call never returns, its gate stays filled and the count stays raised; when
  only the first is received, the call never returns, with its gate free and the count
  back at its value.
\<close>

theorem admitted_operation_frees_gate:
  "(\<not> gateHeld (scanStart (lib s)) \<and> (isCLIMode s \<or> 2 \<le> receivers (changed (busy s))) \<longrightarrow>
      fst (scan E W ph root s) \<noteq> None \<and>
      \<not> gateHeld (scanStart (lib (snd (scan E W ph root s)))) \<and>
      busy (snd (scan E W ph root s)) =
        (if isCLIMode s then busy s else snd (dec (snd (inc (busy s)))))) \<and>
   (\<not> gateHeld (loadStart (lib s)) \<and> (isCLIMode s \<or> 2 \<le> receivers (changed (busy s))) \<longrightarrow>
      fst (load W ph s) \<noteq> None \<and>
      \<not> gateHeld (loadStart (lib (snd (load W ph s)))) \<and>
      busy (snd (load W ph s)) =
        (if isCLIMode s then busy s else snd (dec (snd (inc (busy s)))))) \<and>
   (\<not> gateHeld (scanStart (lib s)) \<and> \<not> isCLIMode s \<and> receivers (changed (busy s)) = 0 \<longrightarrow>
      fst (scan E W ph root s) = None \<and>
      gateHeld (scanStart (lib (snd (scan E W ph root s)))) \<and>
      busyCount (busy (snd (scan E W ph root s))) = busyCount (busy s) + 1) \<and>
   (\<not> gateHeld (loadStart (lib s)) \<and> \<not> isCLIMode s \<and> receivers (changed (busy s)) = 0 \<longrightarrow>
      fst (load W ph s) = None \<and>
      gateHeld (loadStart (lib (snd (load W ph s)))) \<and>
      busyCount (busy (snd (load W ph s))) = busyCount (busy s) + 1) \<and>
   (\<not> gateHeld (scanStart (lib s)) \<and> \<not> isCLIMode s \<and> receivers (changed (busy s)) = 1 \<longrightarrow>
      fst (scan E W ph root s) = None \<and>
      \<not> gateHeld (scanStart (lib (snd (scan E W ph root s)))) \<and>
      busyCount (busy (snd (scan E W ph root s))) = busyCount (busy s)) \<and>
   (\<not> gateHeld (loadStart (lib s)) \<and> \<not> isCLIMode s \<and> receivers (changed (busy s)) = 1 \<longrightarrow>
      fst (load W ph s) = None \<and>
      \<not> gateHeld (loadStart (lib (snd (load W ph s)))) \<and>
      busyCount (busy (snd (load W ph s))) = busyCount (busy s)) \<and>
   (2 \<le> receivers (changed b) \<longrightarrow>
      busyCount (snd (dec (snd (inc b)))) = busyCount b \<and>
      taken (changed (snd (dec (snd (inc b))))) = taken (changed b) @ [busyCount b + 1, busyCount b])"
proof (intro conjI impI)
  assume h: "\<not> gateHeld (scanStart (lib s)) \<and> (isCLIMode s \<or> 2 \<le> receivers (changed (busy s)))"
  then have c: "isCLIMode s \<or> 0 < receivers (changed (busy s))" by auto
  note a = scan_admitted [OF h [THEN conjunct1] c, of E W ph root]
  show "fst (scan E W ph root s) \<noteq> None" using a(1) h by simp
  show "\<not> gateHeld (scanStart (lib (snd (scan E W ph root s))))" using a(3) h by simp
  show "busy (snd (scan E W ph root s)) =
        (if isCLIMode s then busy s else snd (dec (snd (inc (busy s)))))" using a(4) .
next
  assume h: "\<not> gateHeld (loadStart (lib s)) \<and> (isCLIMode s \<or> 2 \<le> receivers (changed (busy s)))"
  then have c: "isCLIMode s \<or> 0 < receivers (changed (busy s))" by auto
  note a = load_admitted [OF h [THEN conjunct1] c, of W ph]
  show "fst (load W ph s) \<noteq> None" using a(1) h by simp
  show "\<not> gateHeld (loadStart (lib (snd (load W ph s))))" using a(3) h by simp
  show "busy (snd (load W ph s)) =
        (if isCLIMode s then busy s else snd (dec (snd (inc (busy s)))))" using a(4) .
next
  assume h: "\<not> gateHeld (scanStart (lib s)) \<and> \<not> isCLIMode s \<and> receivers (changed (busy s)) = 0"
  then have u: "scan E W ph root s = (None, scanBegun W s)"
    using scan_blocked [of s E W ph root] by simp
  show "fst (scan E W ph root s) = None" unfolding u by simp
  show "gateHeld (scanStart (lib (snd (scan E W ph root s))))"
    unfolding u by (simp add: gateHeld_def maxLibraryScanners_def)
  show "busyCount (busy (snd (scan E W ph root s))) = busyCount (busy s) + 1"
    unfolding u using h by (simp add: inc_busyCount)
next
  assume h: "\<not> gateHeld (loadStart (lib s)) \<and> \<not> isCLIMode s \<and> receivers (changed (busy s)) = 0"
  then have u: "load W ph s = (None, loadBegun W s)"
    using load_blocked [of s W ph] by simp
  show "fst (load W ph s) = None" unfolding u by simp
  show "gateHeld (loadStart (lib (snd (load W ph s))))"
    unfolding u by (simp add: gateHeld_def maxLibraryScanners_def)
  show "busyCount (busy (snd (load W ph s))) = busyCount (busy s) + 1"
    unfolding u using h by (simp add: inc_busyCount)
next
  assume h: "\<not> gateHeld (scanStart (lib s)) \<and> \<not> isCLIMode s \<and> receivers (changed (busy s)) = 1"
  then have c: "isCLIMode s \<or> 0 < receivers (changed (busy s))" by simp
  note a = scan_admitted [OF h [THEN conjunct1] c, of E W ph root]
  show "fst (scan E W ph root s) = None"
    using a(1) h by (cases "fst (scan E W ph root s)") auto
  show "\<not> gateHeld (scanStart (lib (snd (scan E W ph root s))))" using a(3) h by simp
  show "busyCount (busy (snd (scan E W ph root s))) = busyCount (busy s)"
    using a(4) h by (simp add: dec_inc_busyCount)
next
  assume h: "\<not> gateHeld (loadStart (lib s)) \<and> \<not> isCLIMode s \<and> receivers (changed (busy s)) = 1"
  then have c: "isCLIMode s \<or> 0 < receivers (changed (busy s))" by simp
  note a = load_admitted [OF h [THEN conjunct1] c, of W ph]
  show "fst (load W ph s) = None"
    using a(1) h by (cases "fst (load W ph s)") auto
  show "\<not> gateHeld (loadStart (lib (snd (load W ph s))))" using a(3) h by simp
  show "busyCount (busy (snd (load W ph s))) = busyCount (busy s)"
    using a(4) h by (simp add: dec_inc_busyCount)
next
  assume "2 \<le> receivers (changed b)"
  then show "taken (changed (snd (dec (snd (inc b))))) = taken (changed b) @ [busyCount b + 1, busyCount b]"
    by (rule dec_inc_taken)
next
  show "busyCount (snd (dec (snd (inc b)))) = busyCount b"
    by (rule dec_inc_busyCount)
qed

theorem admitted_operation_frees_gate_witness:
  "\<not> gateHeld (scanStart (lib (watchedState False 2))) \<and>
   fst (scan testEnv testWorld None flatTree (watchedState False 2)) \<noteq> None \<and>
   \<not> gateHeld (scanStart (lib (snd (scan testEnv testWorld None flatTree (watchedState False 2))))) \<and>
   busyCount (busy (snd (scan testEnv testWorld None flatTree (watchedState False 2)))) = 0 \<and>
   taken (changed (busy (snd (scan testEnv testWorld None flatTree (watchedState False 2))))) = [1, 0] \<and>
   fst (load testWorld None (watchedState True 0)) \<noteq> None \<and>
   \<not> gateHeld (loadStart (lib (snd (load testWorld None (watchedState True 0))))) \<and>
   busy (snd (load testWorld None (watchedState True 0))) = busy (watchedState True 0) \<and>
   fst (scan testEnv testWorld None flatTree (watchedState False 0)) = None \<and>
   gateHeld (scanStart (lib (snd (scan testEnv testWorld None flatTree (watchedState False 0))))) \<and>
   busyCount (busy (snd (scan testEnv testWorld None flatTree (watchedState False 0)))) = 1 \<and>
   fst (load testWorld None (watchedState False 1)) = None \<and>
   \<not> gateHeld (loadStart (lib (snd (load testWorld None (watchedState False 1))))) \<and>
   busyCount (busy (snd (load testWorld None (watchedState False 1)))) = 0"
proof -
  note w2 = watchedState_simps [of False 2]
  note w0 = watchedState_simps [of False 0]
  note w1 = watchedState_simps [of False 1]
  note c0 = watchedState_simps [of True 0]
  note t2 = admitted_operation_frees_gate [where s = "watchedState False 2" and E = testEnv
      and W = testWorld and ph = None and root = flatTree and b = "busy (watchedState False 2)"]
  note t0 = admitted_operation_frees_gate [where s = "watchedState False 0" and E = testEnv
      and W = testWorld and ph = None and root = flatTree]
  note t1 = admitted_operation_frees_gate [where s = "watchedState False 1" and W = testWorld
      and ph = None]
  note tc = admitted_operation_frees_gate [where s = "watchedState True 0" and W = testWorld
      and ph = None]
  show ?thesis
    using w2 w0 w1 c0 t2 t0 t1 tc by simp
qed

text \<open>
  C6. With two subtitles scanned and a \<^verbatim>\<open>findCandidates\<close> that fails, the reconciliation
  pass stops at the first orphan and returns the error, and \<^verbatim>\<open>scan()\<close> returns no error:
  the value of \<^verbatim>\<open>l.recandidateSubtitles(false)\<close> is dropped.
\<close>

lemma subsScanned_docs:
  "map fst (docs (colOf subsScanned ecSupport skSubtitles)) = [0, 1]"
  by (simp add: subsScanned_def eval_defs)

theorem scan_drops_reconciliation_error:
  "fst (recandidateSubtitles failingWorld False subsScanned) = Some rcDatabaseError \<and>
   candidateCalls (trace (snd (recandidateSubtitles failingWorld False subsScanned))) = [0] \<and>
   errorAfter (scan testEnv failingWorld None subsTree (testState 0 True)) = Some None"
proof -
  have g: "\<not> gateHeld (scanStart (lib (testState 0 True)))"
    by (simp add: testState_def testLib_def gateHeld_def maxLibraryScanners_def)
  have e: "fst (scanDive testEnv failingWorld None subsTree ''/lib'' 1
                 (scanBegun failingWorld (testState 0 True))) = None"
    by (simp add: eval_defs)
  have p: "Library.absPath (lib (testState 0 True)) = ''/lib''"
    by (simp add: testState_def testLib_def)
  have m: "isCLIMode (testState 0 True) \<or> 0 < receivers (changed (busy (testState 0 True)))"
    by (simp add: testState_def)
  note sa = scan_admitted [OF g m, of testEnv failingWorld None subsTree]
  have "fst (scan testEnv failingWorld None subsTree (testState 0 True)) \<noteq> None"
    using sa(1) m by (simp add: testState_def)
  from sa(2) [OF this]
  have a: "errorAfter (scan testEnv failingWorld None subsTree (testState 0 True)) = Some None"
    unfolding p e by (simp add: errorAfter_def)
  have r: "fst (recandidateSubtitles failingWorld False subsScanned) = Some rcDatabaseError"
    by (simp add: subsScanned_def recandidateSubtitles_def eval_defs)
  have c: "candidateCalls (trace (snd (recandidateSubtitles failingWorld False subsScanned))) = [0]"
    by (simp add: subsScanned_def recandidateSubtitles_def candidateCalls_def withDb_def eval_defs)
  from r c a show ?thesis by simp
qed

text \<open>
  C7. For a regular file that the traversal reaches and whose lower-cased extension is in
  none of the three tables, \<^verbatim>\<open>scanDive\<close> returns no error and changes nothing in the state
  but the events: the \<^verbatim>\<open>Lstat\<close> of the file and, when the slot is filled, one call of the
  other-handler with the absolute path. There is no query, no insert and no call of the
  media or support handler, and the database is as it was.
\<close>

theorem unclassified_file_only_other:
  assumes "rangeVisitsAll E"
    and "Rel E (Library.absPath (lib s)) path = Some rel"
    and "regularMode (fiMode fi)"
    and "\<not> inTable audioTable (ToLower E (path_Ext path))"
    and "\<not> inTable videoTable (ToLower E (path_Ext path))"
    and "\<not> inTable subsTable (ToLower E (path_Ext path))"
  shows "scanDive E W ph (Node (Some fi) ents) path depth s =
           (None, s\<lparr> trace := trace s @ [EvLstat path depth] @ otherEvents ph path \<rparr>)"
proof -
  have m: "mediaKindOfFileExt E (path_Ext path) = (mkUnknown, [])"
    using media_unknown [OF assms(1,4,5)] .
  have u: "supportKindOfFileExt E (path_Ext path) = (mskUnknown, [])"
    using support_unknown [OF assms(1,6)] by (simp add: supportKindOfFileExt_def)
  have f: "scanFile E W ph path rel fi s' = (None, notifyOther ph path s')" for s'
    by (simp add: scanFile_def m u mkUnknown_def mkAudio_def mkVideo_def mskUnknown_def
        skSubtitles_def mskSubtitles_def)
  have n: "notifyOther ph path (emit (EvLstat path depth) s) =
      s\<lparr> trace := trace s @ [EvLstat path depth] @ otherEvents ph path \<rparr>"
    by (simp add: notifyOther_def otherEvents_def emit_def split: option.splits)
  show ?thesis
    using assms(2,3) by (simp add: regularMode_def f n)
qed

theorem unclassified_file_only_other_witness:
  "rangeVisitsAll testEnv \<and> regularMode (fiMode (fileInfo ''notes.txt'')) \<and>
   scanDive testEnv testWorld (Some \<lparr> handleMedia = True, handleSupport = True, handleOther = True \<rparr>)
     (fileNode ''notes.txt'') ''/lib/notes.txt'' 2 (testState 0 True) =
     (None, (testState 0 True)\<lparr> trace := [EvLstat ''/lib/notes.txt'' 2, EvOther ''/lib/notes.txt''] \<rparr>)"
proof -
  have r: "rangeVisitsAll testEnv"
    by (rule rangeVisitsAll_testEnv)
  have l: "Rel testEnv (Library.absPath (lib (testState 0 True))) ''/lib/notes.txt'' = Some ''notes.txt''"
    by (simp add: testEnv_def testState_def testLib_def filepath_Rel_def elements_def rooted_def)
  have m: "regularMode (fiMode (fileInfo ''notes.txt''))"
    by (simp add: regularMode_def fileInfo_def ModeDir_def ModeSymlink_def ModeDevice_def
        ModeNamedPipe_def ModeSocket_def ModeCharDevice_def)
  have e: "path_Ext ''/lib/notes.txt'' = ''.txt''"
    by (simp add: path_Ext_def)
  have a: "\<not> inTable audioTable (ToLower testEnv (path_Ext ''/lib/notes.txt''))"
    unfolding e by (simp add: inTable_def audioTable_def testEnv_def asciiLower_def)
  have v: "\<not> inTable videoTable (ToLower testEnv (path_Ext ''/lib/notes.txt''))"
    unfolding e by (simp add: inTable_def videoTable_def testEnv_def asciiLower_def)
  have u: "\<not> inTable subsTable (ToLower testEnv (path_Ext ''/lib/notes.txt''))"
    unfolding e by (simp add: inTable_def subsTable_def testEnv_def asciiLower_def)
  have t: "trace (testState 0 True) = []"
    by (simp add: testState_def)
  show ?thesis
    using r m unclassified_file_only_other [OF r l m a v u, of testWorld
        "Some \<lparr> handleMedia = True, handleSupport = True, handleOther = True \<rparr>" None 2]
    by (simp add: fileNode_def otherEvents_def t)
qed

section \<open>The traversal case by case, and the depth of its visits\<close>

lemma framed_quiet: "framed f \<Longrightarrow> quiet f"
  by (simp add: framed_def quiet_def)

lemma quietD:
  assumes "quiet f"
  shows "fileEvent e \<Longrightarrow> f (emit e s) = f s" and "f (withDb d s) = f s"
    and "f (s\<lparr> ticks := n \<rparr>) = f s"
    and "f (setCol c k x s) = f s" and "f (countScan c k s) = f s"
    and "f (snd (time_Now W s)) = f s"
  using assms by (simp_all add: quiet_def setCol_withDb countScan_withDb time_Now_def)

lemma fileEvent_simps [simp]:
  "fileEvent (EvQuery c k p)" "fileEvent (EvInsert c k p)" "fileEvent (EvMedia p i)"
  "fileEvent (EvSupport p i)" "fileEvent (EvOther p)"
  "\<not> fileEvent (EvLstat p n)" "\<not> fileEvent (EvOpenDir p)" "\<not> fileEvent (EvWarn rc)"
  "\<not> fileEvent (EvCandidates i)"
  by (simp_all add: fileEvent_def)

lemma notify_quiet:
  assumes "quiet f"
  shows "f (notifyMedia ph p i s) = f s" and "f (notifySupport ph p i s) = f s"
    and "f (notifyOther ph p s) = f s"
  using quietD(1) [OF assms]
  by (simp_all add: notifyMedia_def notifySupport_def notifyOther_def split: option.splits)

lemma seenFile_quiet:
  assumes "quiet f"
  shows "f (snd (seenFile s c k p)) = f s"
  using quietD(1) [OF assms]
  by (simp add: seenFile_def Let_def split: sum.splits)

lemma insertNew_quiet:
  assumes "quiet f"
  shows "f (snd (insertNew W ph c k p r s)) = f s"
  using quietD [OF assms] notify_quiet [OF assms]
  by (simp add: insertNew_def Let_def split: option.splits sum.splits prod.splits)

lemma build_quiet:
  assumes "quiet f"
  shows "f (snd (audioRecord W p rel e en fi s)) = f s"
    and "f (snd (videoRecord W p rel e en fi s)) = f s"
    and "f (snd (subtitlesRecord p rel e en fi s)) = f s"
  using quietD(3) [OF assms]
  by (simp_all add: audioRecord_def videoRecord_def subtitlesRecord_def time_Now_def)

lemma indexNew_quiet:
  assumes "quiet f" and "\<And>s. f (snd (build s)) = f s"
  shows "f (snd (indexNew W ph c k p build s)) = f s"
proof (cases "seenFile s c k p")
  case (Pair res s1)
  have s1: "f s1 = f s"
    using seenFile_quiet [OF assms(1), of s c k p] Pair by simp
  show ?thesis
  proof (cases res)
    case (Inl err)
    then show ?thesis using Pair s1 by (simp add: indexNew_def)
  next
    case (Inr seen)
    show ?thesis
    proof (cases "build s1")
      case (Pair r s2)
      have "f s2 = f s1" using assms(2) [of s1] Pair by simp
      then show ?thesis
        using \<open>seenFile s c k p = (res, s1)\<close> Inr Pair s1 insertNew_quiet [OF assms(1), of W ph c k p r s2]
        by (simp add: indexNew_def)
    qed
  qed
qed

lemma scanFile_quiet:
  assumes "quiet f"
  shows "f (snd (scanFile E W ph p rel fi s)) = f s"
  by (simp add: scanFile_def Let_def indexNew_quiet [OF assms] build_quiet [OF assms]
      notify_quiet [OF assms] split: prod.splits)

lemma lstatDepths_simps [simp]:
  "lstatDepths [] = []" "lstatDepths (xs @ ys) = lstatDepths xs @ lstatDepths ys"
  "lstatDepths (e # es) = (case e of EvLstat p n \<Rightarrow> [n] | _ \<Rightarrow> []) @ lstatDepths es"
  by (simp_all add: lstatDepths_def)

lemma lstatDepths_fileEvent: "fileEvent e \<Longrightarrow> lstatDepths [e] = []"
  by (cases e) (simp_all add: lstatDepths_def)

lemma quiet_lstatDepths: "quiet (\<lambda>s. lstatDepths (trace s))"
  by (auto simp: quiet_def fileEvent_def split: Event.splits)

lemma scanDive_cases [case_names noRel noStat deep noOpen dir special regular]:
  obtains
    "Rel E (Library.absPath (lib s)) path = None"
      "scanDive E W ph (Node st ents) path depth s = (Some rcInvalidPath, s)"
  | rel where "Rel E (Library.absPath (lib s)) path = Some rel" "st = None"
      "scanDive E W ph (Node st ents) path depth s = (Some rcInvalidStat, emit (EvLstat path depth) s)"
  | rel fi where "Rel E (Library.absPath (lib s)) path = Some rel" "st = Some fi"
      "0 < (fiMode fi AND ModeDir)"
      "depthUnlimited \<noteq> maxDepth (lib s) \<and> maxDepth (lib s) < depth"
      "scanDive E W ph (Node st ents) path depth s = (Some rcDirDepth, emit (EvLstat path depth) s)"
  | rel fi where "Rel E (Library.absPath (lib s)) path = Some rel" "st = Some fi"
      "0 < (fiMode fi AND ModeDir)"
      "\<not> (depthUnlimited \<noteq> maxDepth (lib s) \<and> maxDepth (lib s) < depth)" "ents = None"
      "scanDive E W ph (Node st ents) path depth s =
         (Some rcDirOpen, emit (EvOpenDir path) (emit (EvLstat path depth) s))"
  | rel fi dirName where "Rel E (Library.absPath (lib s)) path = Some rel" "st = Some fi"
      "0 < (fiMode fi AND ModeDir)"
      "\<not> (depthUnlimited \<noteq> maxDepth (lib s) \<and> maxDepth (lib s) < depth)" "ents = Some dirName"
      "scanDive E W ph (Node st ents) path depth s =
         (None, scanEntries E W ph dirName path depth
                  (emit (EvOpenDir path) (emit (EvLstat path depth) s)))"
  | rel fi where "Rel E (Library.absPath (lib s)) path = Some rel" "st = Some fi"
      "\<not> 0 < (fiMode fi AND ModeDir)" "\<not> regularMode (fiMode fi)"
      "scanDive E W ph (Node st ents) path depth s = (Some rcInvalidFile, emit (EvLstat path depth) s)"
  | rel fi where "Rel E (Library.absPath (lib s)) path = Some rel" "st = Some fi"
      "\<not> 0 < (fiMode fi AND ModeDir)" "regularMode (fiMode fi)"
      "scanDive E W ph (Node st ents) path depth s =
         scanFile E W ph path rel fi (emit (EvLstat path depth) s)"
proof (cases "Rel E (Library.absPath (lib s)) path")
  case None
  then show ?thesis using that(1) by simp
next
  case (Some rel)
  note rel = Some
  show ?thesis
  proof (cases st)
    case None
    then show ?thesis using that(2) rel by simp
  next
    case (Some fi)
    note fi = Some
    show ?thesis
    proof (cases "0 < (fiMode fi AND ModeDir)")
      case False
      show ?thesis
      proof (cases "regularMode (fiMode fi)")
        case True
        then show ?thesis
          using that(7) [OF rel fi False] rel fi False by (simp add: regularMode_def Let_def)
      next
        case nr: False
        then show ?thesis
          using that(6) [OF rel fi False] rel fi False by (auto simp: regularMode_def Let_def)
      qed
    next
      case True
      note dir = True
      show ?thesis
      proof (cases "depthUnlimited \<noteq> maxDepth (lib s) \<and> maxDepth (lib s) < depth")
        case True
        then show ?thesis using that(3) [OF rel fi dir] rel fi dir by (simp add: Let_def)
      next
        case False
        show ?thesis
        proof (cases ents)
          case None
          then show ?thesis using that(4) [OF rel fi dir False] rel fi dir False by (simp add: Let_def)
        next
          case (Some dirName)
          then show ?thesis using that(5) [OF rel fi dir False] rel fi dir False by (simp add: Let_def)
        qed
      qed
    qed
  qed
qed

declare scanDive.simps [simp del]

lemma lstat_bound:
  assumes "depthUnlimited \<noteq> lim"
  shows "maxDepth (lib s) = lim \<Longrightarrow> depth \<le> lim + 1 \<Longrightarrow> \<forall>n \<in> set (lstatDepths (trace s)). n \<le> lim + 1 \<Longrightarrow>
           \<forall>n \<in> set (lstatDepths (trace (snd (scanDive E W ph node path depth s)))). n \<le> lim + 1"
    and "maxDepth (lib s) = lim \<Longrightarrow> depth \<le> lim \<Longrightarrow> \<forall>n \<in> set (lstatDepths (trace s)). n \<le> lim + 1 \<Longrightarrow>
           \<forall>n \<in> set (lstatDepths (trace (scanEntries E W ph ents path depth s))). n \<le> lim + 1"
proof (induction node path depth s and ents path depth s rule: scanDive_induct [where E = E and W = W and ph = ph])
  case (1 st ents path depth s)
  note q = scanFile_quiet [OF quiet_lstatDepths]
  show ?case
  proof (cases rule: scanDive_cases [of E s path W ph st ents depth])
    case noRel
    then show ?thesis using 1(4) by simp
  next
    case (noStat rel)
    then show ?thesis using 1(3,4) by simp
  next
    case (deep rel fi)
    then show ?thesis using 1(3,4) by simp
  next
    case (noOpen rel fi)
    then show ?thesis using 1(3,4) by simp
  next
    case (dir rel fi dirName)
    have d: "depth \<le> lim" using dir(4) assms 1(2) by simp
    have "\<forall>n \<in> set (lstatDepths (trace (scanEntries E W ph dirName path depth
                     (emit (EvOpenDir path) (emit (EvLstat path depth) s))))). n \<le> lim + 1"
      using 1(1) [OF dir(1,2,3,4,5)] 1(2,3,4) d by simp
    then show ?thesis using dir(6) by simp
  next
    case (special rel fi)
    then show ?thesis using 1(3,4) by simp
  next
    case (regular rel fi)
    then show ?thesis using 1(3,4) by (simp add: q)
  qed
next
  case (2 path depth s)
  then show ?case by simp
next
  case (3 n child dirName path depth s)
  obtain x y where xy: "scanDive E W ph child (path_Join path n) (depth + 1) s = (x, y)"
    by (cases "scanDive E W ph child (path_Join path n) (depth + 1) s")
  have m: "maxDepth (lib y) = lim"
    using scanDive_framed(1) [OF framed_instances(6), of E W ph child "path_Join path n" "depth + 1" s]
      xy 3(3) by simp
  have b: "\<forall>n \<in> set (lstatDepths (trace y)). n \<le> lim + 1"
    using 3(1) [OF 3(3) _ 3(5)] 3(4) xy by simp
  let ?y = "case x of None \<Rightarrow> y | Some rc \<Rightarrow> emit (EvWarn rc) y"
  have "maxDepth (lib ?y) = lim" "\<forall>n \<in> set (lstatDepths (trace ?y)). n \<le> lim + 1"
    using m b by (cases x; simp)+
  then show ?case
    using 3(2) [OF xy [symmetric] _ 3(4)] xy by simp
qed

section \<open>The depth limit\<close>


text \<open>
  What the traversal does at the limit, in general. In a library with \<^verbatim>\<open>maxDepth = lim\<close>,
  \<open>lim\<close> non-zero: a traversal that starts at a depth of at most \<open>lim + 1\<close> calls
  \<^verbatim>\<open>os.Lstat\<close> at no depth greater than \<open>lim + 1\<close>; a directory reached at a depth greater
  than \<open>lim\<close> is reported as \<^verbatim>\<open>rcDirDepth\<close> after its \<^verbatim>\<open>os.Lstat\<close>, and nothing else
  happens; a directory reached at a depth of at most \<open>lim\<close> is opened and each of its entries
  is visited at the depth plus one; a regular file that is visited goes to the
  classification and indexing of the \<^verbatim>\<open>default\<close> case whatever its depth.
\<close>

lemma traversal_at_the_limit:
  assumes "maxDepth (lib s) = lim" and "depthUnlimited \<noteq> lim"
  shows "(depth \<le> lim + 1 \<and> (\<forall>n \<in> set (lstatDepths (trace s)). n \<le> lim + 1) \<longrightarrow>
            (\<forall>n \<in> set (lstatDepths (trace (snd (scanDive E W ph node path depth s)))). n \<le> lim + 1)) \<and>
         (Rel E (Library.absPath (lib s)) path = Some rel \<and> 0 < (fiMode fi AND ModeDir) \<and> lim < depth \<longrightarrow>
            scanDive E W ph (Node (Some fi) ents) path depth s =
              (Some rcDirDepth, emit (EvLstat path depth) s)) \<and>
         (Rel E (Library.absPath (lib s)) path = Some rel \<and> 0 < (fiMode fi AND ModeDir) \<and> depth \<le> lim \<longrightarrow>
            scanDive E W ph (Node (Some fi) (Some ((n, child) # dirName))) path depth s =
              (None, scanEntries E W ph ((n, child) # dirName) path depth
                       (emit (EvOpenDir path) (emit (EvLstat path depth) s))) \<and>
            scanEntries E W ph ((n, child) # dirName) path depth s' =
              (case scanDive E W ph child (path_Join path n) (depth + 1) s' of
                 (scanErr, s1) \<Rightarrow>
                   scanEntries E W ph dirName path depth
                     (case scanErr of None \<Rightarrow> s1 | Some rc \<Rightarrow> emit (EvWarn rc) s1))) \<and>
         (Rel E (Library.absPath (lib s)) path = Some rel \<and> regularMode (fiMode fi) \<longrightarrow>
            scanDive E W ph (Node (Some fi) ents) path depth s =
              scanFile E W ph path rel fi (emit (EvLstat path depth) s))"
proof (intro conjI impI)
  assume "depth \<le> lim + 1 \<and> (\<forall>n \<in> set (lstatDepths (trace s)). n \<le> lim + 1)"
  then show "\<forall>n \<in> set (lstatDepths (trace (snd (scanDive E W ph node path depth s)))). n \<le> lim + 1"
    using lstat_bound(1) [OF assms(2,1), where depth = depth and E = E and W = W and ph = ph
        and node = node and path = path] by simp
next
  assume "Rel E (Library.absPath (lib s)) path = Some rel \<and> 0 < (fiMode fi AND ModeDir) \<and> lim < depth"
  then show "scanDive E W ph (Node (Some fi) ents) path depth s =
      (Some rcDirDepth, emit (EvLstat path depth) s)"
    using assms by (simp add: scanDive.simps Let_def)
next
  assume "Rel E (Library.absPath (lib s)) path = Some rel \<and> 0 < (fiMode fi AND ModeDir) \<and> depth \<le> lim"
  then show "scanDive E W ph (Node (Some fi) (Some ((n, child) # dirName))) path depth s =
      (None, scanEntries E W ph ((n, child) # dirName) path depth
               (emit (EvOpenDir path) (emit (EvLstat path depth) s)))"
    using assms by (simp add: scanDive.simps Let_def del: scanEntries.simps)
next
  show "scanEntries E W ph ((n, child) # dirName) path depth s' =
      (case scanDive E W ph child (path_Join path n) (depth + 1) s' of
         (scanErr, s1) \<Rightarrow>
           scanEntries E W ph dirName path depth
             (case scanErr of None \<Rightarrow> s1 | Some rc \<Rightarrow> emit (EvWarn rc) s1))"
    by simp
next
  assume "Rel E (Library.absPath (lib s)) path = Some rel \<and> regularMode (fiMode fi)"
  then show "scanDive E W ph (Node (Some fi) ents) path depth s =
      scanFile E W ph path rel fi (emit (EvLstat path depth) s)"
    by (simp add: scanDive.simps Let_def regularMode_def)
qed

section \<open>The index after a pass\<close>

text \<open>The store when it works: the query of \<^verbatim>\<open>seenFile\<close> counts, the insert appends.\<close>

lemma classKinds_eq: "classKinds = [(ecMedia, mkAudio), (ecMedia, mkVideo), (ecSupport, skSubtitles)]"
  by (simp add: classKinds_def kindsOf_def ecMedia_def ecSupport_def)

lemma colOf_simps [simp]:
  "colOf (emit e s) = colOf s" "colOf (s\<lparr> ticks := n \<rparr>) = colOf s"
  "colOf (notifyMedia ph p i s) = colOf s" "colOf (notifySupport ph p i s) = colOf s"
  "colOf (notifyOther ph p s) = colOf s" "colOf (countScan c k s) = colOf s"
  "colOf (setCol c k x s) = (colOf s)(c := (colOf s c)(k := x))"
  by (auto simp: colOf_def emit_def notifyMedia_def notifySupport_def notifyOther_def countScan_def
      setCol_def fun_eq_iff split: option.splits)

lemma storeWorksD:
  assumes "storeWorks W s" and "(c, k) \<in> set classKinds"
  shows "writable (colOf s c k)" and "''absPath'' \<in> set (indexed (colOf s c k))"
    and "toRecordErr W r = None"
  using assms by (auto simp: storeWorks_def)

lemma classKinds_valid:
  assumes "(c, k) \<in> set classKinds"
  shows "c \<noteq> ecUnknown" "c < ecCOUNT" "\<not> c < 0" "hd (dbIndex c ! ([mxPath, sxPath] ! nat c)) = ''absPath''"
  using assms
  by (auto simp: classKinds_eq ecMedia_def ecSupport_def ecUnknown_def ecCOUNT_def dbIndex_def
      mediaIndex_def supportIndex_def mxPath_def sxPath_def)

lemma seenFile_works:
  assumes "storeWorks W s" and "(c, k) \<in> set classKinds"
  shows "seenFile s c k p = (Inr (0 < countPath (colOf s c k) p), emit (EvQuery c k p) s)"
  using classKinds_valid [OF assms(2)] storeWorksD(2) [OF assms]
  by (simp add: seenFile_def Let_def EvalQuery_def countPath_def)

lemma insertNew_works:
  assumes "storeWorks W s" and "(c, k) \<in> set classKinds"
  shows "\<exists>s'. insertNew W ph c k p r s = (None, s') \<and>
           colOf s' = (colOf s)(c := (colOf s c)(k := (colOf s c k)\<lparr> docs := docs (colOf s c k) @ [(length (docs (colOf s c k)), r)] \<rparr>))"
  using storeWorksD(1,3) [OF assms]
  by (simp add: insertNew_def Let_def Insert_def)

lemma build_path:
  "fst (audioRecord W p rel e en fi s) ''absPath'' = Some (VString p)"
  "fst (videoRecord W p rel e en fi s) ''absPath'' = Some (VString p)"
  "fst (subtitlesRecord p rel e en fi s) ''absPath'' = Some (VString p)"
  by (simp_all add: audioRecord_def videoRecord_def subtitlesRecord_def time_Now_def
      AudioMedia_toRecord_def VideoMedia_toRecord_def Subtitles_toRecord_def mediaEntries_def
      newAudioMedia_def newVideoMedia_def newSubtitles_def newMedia_def Media.defs)

lemma build_colOf:
  "colOf (snd (audioRecord W p rel e en fi s)) = colOf s"
  "colOf (snd (videoRecord W p rel e en fi s)) = colOf s"
  "colOf (snd (subtitlesRecord p rel e en fi s)) = colOf s"
  by (simp_all add: audioRecord_def videoRecord_def subtitlesRecord_def time_Now_def)

lemma storeWorks_colOf: "colOf t = colOf s \<Longrightarrow> storeWorks W t = storeWorks W s"
  by (simp add: storeWorks_def)

lemma db_emit [simp]: "db (lib (emit e s)) = db (lib s)"
  by simp

lemma indexNew_seen:
  assumes "storeWorks W s" and "(c, k) \<in> set classKinds" and "0 < countPath (colOf s c k) p"
  shows "indexNew W ph c k p build s = (None, emit (EvQuery c k p) s)"
  using assms by (simp add: indexNew_def seenFile_works)

lemma indexNew_new:
  assumes "storeWorks W s" and "(c, k) \<in> set classKinds" and "countPath (colOf s c k) p = 0"
    and "\<And>t. colOf (snd (build t)) = colOf t"
    and "\<And>t. fst (build t) ''absPath'' = Some (VString p)"
  shows "\<exists>r s'. indexNew W ph c k p build s = (None, s') \<and> r ''absPath'' = Some (VString p) \<and>
           colOf s' = (colOf s)(c := (colOf s c)(k := (colOf s c k)\<lparr> docs := docs (colOf s c k) @ [(length (docs (colOf s c k)), r)] \<rparr>))"
proof -
  let ?s1 = "emit (EvQuery c k p) s"
  obtain r s2 where b: "build ?s1 = (r, s2)" by (cases "build ?s1")
  have c2: "colOf s2 = colOf s" using assms(4) [of ?s1] b by simp
  have r: "r ''absPath'' = Some (VString p)" using assms(5) [of ?s1] b by simp
  have w: "storeWorks W s2" using storeWorks_colOf [OF c2] assms(1) by simp
  obtain s' where i: "insertNew W ph c k p r s2 = (None, s')"
    and c': "colOf s' = (colOf s2)(c := (colOf s2 c)(k := (colOf s2 c k)\<lparr> docs := docs (colOf s2 c k) @ [(length (docs (colOf s2 c k)), r)] \<rparr>))"
    using insertNew_works [OF w assms(2), of ph p r] by blast
  have "indexNew W ph c k p build s = (None, s')"
    using assms(1,2,3) b i by (simp add: indexNew_def seenFile_works)
  then show ?thesis using r c' c2 by auto
qed

lemma collectionOf_classKinds: "collectionOf E p = Some (c, k) \<Longrightarrow> (c, k) \<in> set classKinds"
  by (auto simp: collectionOf_def Let_def classKinds_eq split: if_splits)

lemma scanFile_known:
  assumes "rangeVisitsAll E" and "collectionOf E p = Some (c, k)"
  shows "\<exists>build. scanFile E W ph p rel fi s = indexNew W ph c k p build s \<and>
           (\<forall>t. colOf (snd (build t)) = colOf t) \<and>
           (\<forall>t. fst (build t) ''absPath'' = Some (VString p))"
proof (cases "inTable audioTable (ToLower E (path_Ext p))")
  case True
  then have ck: "c = ecMedia" "k = mkAudio" using assms(2) by (simp_all add: collectionOf_def)
  obtain n where m: "mediaKindOfFileExt E (path_Ext p) = (mkAudio, n)"
    using media_audio [OF assms(1) True] by (cases "mediaKindOfFileExt E (path_Ext p)") simp
  show ?thesis
    using m ck by (auto simp: scanFile_def Let_def build_path build_colOf)
next
  case na: False
  show ?thesis
  proof (cases "inTable videoTable (ToLower E (path_Ext p))")
    case True
    then have ck: "c = ecMedia" "k = mkVideo" using assms(2) na by (simp_all add: collectionOf_def)
    obtain n where m: "mediaKindOfFileExt E (path_Ext p) = (mkVideo, n)"
      using media_video [OF assms(1) na True] by (cases "mediaKindOfFileExt E (path_Ext p)") simp
    show ?thesis
      using m ck by (auto simp: scanFile_def Let_def build_path build_colOf mkVideo_def mkAudio_def)
  next
    case nv: False
    then have st: "inTable subsTable (ToLower E (path_Ext p))"
      and ck: "c = ecSupport" "k = skSubtitles"
      using assms(2) na by (simp_all add: collectionOf_def split: if_splits)
    have m: "mediaKindOfFileExt E (path_Ext p) = (mkUnknown, '''')"
      using media_unknown [OF assms(1) na nv] .
    obtain n where u: "supportKindOfFileExt E (path_Ext p) = (skSubtitles, n)"
      using support_subtitles [OF assms(1) st]
      by (cases "mediaSupportKindOfFileExt E (path_Ext p)")
        (simp add: supportKindOfFileExt_def skSubtitles_def)
    show ?thesis
      using m u ck
      by (auto simp: scanFile_def Let_def build_path build_colOf mkVideo_def mkAudio_def mkUnknown_def)
  qed
qed

lemma scanFile_unknown:
  assumes "rangeVisitsAll E" and "collectionOf E p = None"
  shows "scanFile E W ph p rel fi s = (None, notifyOther ph p s)"
proof -
  have n: "\<not> inTable audioTable (ToLower E (path_Ext p))"
    "\<not> inTable videoTable (ToLower E (path_Ext p))"
    "\<not> inTable subsTable (ToLower E (path_Ext p))"
    using assms(2) by (simp_all add: collectionOf_def Let_def split: if_splits)
  show ?thesis
    using media_unknown [OF assms(1) n(1,2)] support_unknown [OF assms(1) n(3)]
    by (simp add: scanFile_def Let_def supportKindOfFileExt_def mkUnknown_def mkAudio_def
        mkVideo_def mskUnknown_def skSubtitles_def mskSubtitles_def)
qed

lemma scanFile_colOf:
  assumes "rangeVisitsAll E" and "storeWorks W s"
  shows "(db (lib (snd (scanFile E W ph p rel fi s))) = db (lib s) \<and>
          (\<forall>c k. collectionOf E p = Some (c, k) \<longrightarrow> 0 < countPath (colOf s c k) p)) \<or>
         (\<exists>c k r. collectionOf E p = Some (c, k) \<and> countPath (colOf s c k) p = 0 \<and>
            r ''absPath'' = Some (VString p) \<and>
            colOf (snd (scanFile E W ph p rel fi s)) =
              (colOf s)(c := (colOf s c)(k := (colOf s c k)\<lparr> docs := docs (colOf s c k) @ [(length (docs (colOf s c k)), r)] \<rparr>)))"
proof (cases "collectionOf E p")
  case None
  then show ?thesis
    using scanFile_unknown [OF assms(1) None, of W ph rel fi s]
    by (simp add: notifyOther_def split: option.splits)
next
  case (Some ck)
  obtain c k where ck: "ck = (c, k)" by (cases ck)
  note col = Some [unfolded ck]
  note mem = collectionOf_classKinds [OF col]
  obtain build where b: "scanFile E W ph p rel fi s = indexNew W ph c k p build s"
    and b1: "\<And>t. colOf (snd (build t)) = colOf t"
    and b2: "\<And>t. fst (build t) ''absPath'' = Some (VString p)"
    using scanFile_known [OF assms(1) col, of W ph rel fi s] by blast
  show ?thesis
  proof (cases "countPath (colOf s c k) p = 0")
    case True
    obtain r s' where "indexNew W ph c k p build s = (None, s')" "r ''absPath'' = Some (VString p)"
      "colOf s' = (colOf s)(c := (colOf s c)(k := (colOf s c k)\<lparr> docs := docs (colOf s c k) @ [(length (docs (colOf s c k)), r)] \<rparr>))"
      using indexNew_new [OF assms(2) mem True b1 b2, of ph] by blast
    then show ?thesis using b col True by auto
  next
    case False
    then have pos: "0 < countPath (colOf s c k) p" by simp
    show ?thesis
      using indexNew_seen [OF assms(2) mem pos, of ph build] b col pos by simp
  qed
qed

lemma countPath_snoc:
  "countPath (x\<lparr> docs := docs x @ [(i, r)] \<rparr>) q =
     countPath x q + (if r ''absPath'' = Some (VString q) then 1 else 0)"
  by (simp add: countPath_def)

lemma colOf_db: "db (lib t) = db (lib s) \<Longrightarrow> colOf t = colOf s"
  by (simp add: colOf_def fun_eq_iff)

lemma scanFile_count:
  assumes "rangeVisitsAll E" and "storeWorks W s"
  shows "countPath (colOf (snd (scanFile E W ph p rel fi s)) c k) q =
           countPath (colOf s c k) q +
             (if collectionOf E p = Some (c, k) \<and> q = p \<and> countPath (colOf s c k) p = 0 then 1 else 0)"
  using scanFile_colOf [OF assms, of ph p rel fi]
  by (auto simp: countPath_snoc dest: colOf_db)

lemma scanFile_storeWorks:
  assumes "rangeVisitsAll E" and "storeWorks W s"
  shows "storeWorks W (snd (scanFile E W ph p rel fi s))"
proof -
  let ?s' = "snd (scanFile E W ph p rel fi s)"
  have "\<forall>c k. writable (colOf ?s' c k) = writable (colOf s c k) \<and>
          indexed (colOf ?s' c k) = indexed (colOf s c k)"
    using scanFile_colOf [OF assms, of ph p rel fi]
  proof (elim disjE conjE exE)
    assume "db (lib ?s') = db (lib s)"
    then show ?thesis using colOf_db [of ?s' s] by simp
  next
    fix c k r
    assume "colOf ?s' = (colOf s)(c := (colOf s c)(k := (colOf s c k)\<lparr> docs := docs (colOf s c k) @ [(length (docs (colOf s c k)), r)] \<rparr>))"
    then show ?thesis by simp
  qed
  then show ?thesis
    using assms(2) by (simp add: storeWorks_def)
qed

lemma scanFile_same:
  assumes "rangeVisitsAll E" and "storeWorks W s"
    and "\<And>c k. collectionOf E p = Some (c, k) \<Longrightarrow> 0 < countPath (colOf s c k) p"
  shows "db (lib (snd (scanFile E W ph p rel fi s))) = db (lib s)"
  using scanFile_colOf [OF assms(1,2), of ph p rel fi] assms(3)
  by auto

lemma storeWorks_emit [simp]: "storeWorks W (emit e s) = storeWorks W s"
  by (simp add: storeWorks_def)

lemma scanDive_storeWorks:
  assumes "rangeVisitsAll E"
  shows "storeWorks W s \<Longrightarrow> storeWorks W (snd (scanDive E W ph node p d s))"
    and "storeWorks W s \<Longrightarrow> storeWorks W (scanEntries E W ph ents p d s)"
  by (rule scanDive_inv [where I = "storeWorks W"]; simp add: scanFile_storeWorks [OF assms])+

lemma scanDive_mono:
  assumes "rangeVisitsAll E"
  shows "storeWorks W s \<and> m \<le> countPath (colOf s c k) q \<Longrightarrow>
           storeWorks W (snd (scanDive E W ph node p d s)) \<and>
           m \<le> countPath (colOf (snd (scanDive E W ph node p d s)) c k) q"
    and "storeWorks W s \<and> m \<le> countPath (colOf s c k) q \<Longrightarrow>
           storeWorks W (scanEntries E W ph ents p d s) \<and>
           m \<le> countPath (colOf (scanEntries E W ph ents p d s) c k) q"
  by (rule scanDive_inv [where I = "\<lambda>t. storeWorks W t \<and> m \<le> countPath (colOf t c k) q"];
      simp add: scanFile_storeWorks [OF assms] scanFile_count [OF assms])+

lemma scanDive_unique:
  assumes "rangeVisitsAll E"
  shows "storeWorks W s \<and> uniquePaths s \<Longrightarrow>
           storeWorks W (snd (scanDive E W ph node p d s)) \<and>
           uniquePaths (snd (scanDive E W ph node p d s))"
    and "storeWorks W s \<and> uniquePaths s \<Longrightarrow>
           storeWorks W (scanEntries E W ph ents p d s) \<and>
           uniquePaths (scanEntries E W ph ents p d s)"
  by (rule scanDive_inv [where I = "\<lambda>t. storeWorks W t \<and> uniquePaths t"];
      simp add: scanFile_storeWorks [OF assms] scanFile_count [OF assms] uniquePaths_def)+

text \<open>Coverage: after a pass, every file that it reaches and classifies is in its collection.\<close>

lemma scanDive_covers:
  assumes "rangeVisitsAll E"
  shows "Library.absPath (lib s) = root \<and> maxDepth (lib s) = lim \<and> storeWorks W s \<Longrightarrow>
           \<forall>(q, fi) \<in> set (reached E root lim node path depth). \<forall>c k.
             collectionOf E q = Some (c, k) \<longrightarrow>
             0 < countPath (colOf (snd (scanDive E W ph node path depth s)) c k) q"
    and "Library.absPath (lib s) = root \<and> maxDepth (lib s) = lim \<and> storeWorks W s \<Longrightarrow>
           \<forall>(q, fi) \<in> set (reachedIn E root lim ents path depth). \<forall>c k.
             collectionOf E q = Some (c, k) \<longrightarrow>
             0 < countPath (colOf (scanEntries E W ph ents path depth s) c k) q"
proof (induction node path depth s and ents path depth s rule: scanDive_induct [where E = E and W = W and ph = ph])
  case (1 st ents path depth s)
  then have r: "Library.absPath (lib s) = root" and l: "maxDepth (lib s) = lim"
    and w: "storeWorks W s" by simp_all
  show ?case
  proof (cases rule: scanDive_cases [of E s path W ph st ents depth])
    case noRel
    then show ?thesis using r by simp
  next
    case (noStat rel)
    then show ?thesis using r by simp
  next
    case (deep rel fi)
    then show ?thesis using r l by simp
  next
    case (noOpen rel fi)
    then show ?thesis using r l by simp
  next
    case (dir rel fi dirName)
    have "\<forall>(q, fi) \<in> set (reachedIn E root lim dirName path depth). \<forall>c k.
             collectionOf E q = Some (c, k) \<longrightarrow>
             0 < countPath (colOf (scanEntries E W ph dirName path depth
                   (emit (EvOpenDir path) (emit (EvLstat path depth) s))) c k) q"
      using 1(1) [OF dir(1,2,3,4,5)] r l w by simp
    then show ?thesis using dir r l by simp
  next
    case (special rel fi)
    then show ?thesis using r by simp
  next
    case (regular rel fi)
    have w1: "storeWorks W (emit (EvLstat path depth) s)" using w by simp
    show ?thesis
      using regular r scanFile_count [OF assms w1, of ph path rel fi] by simp
  qed
next
  case (2 path depth s)
  then show ?case by simp
next
  case (3 n child dirName path depth s)
  then have r: "Library.absPath (lib s) = root" and l: "maxDepth (lib s) = lim"
    and w: "storeWorks W s" by simp_all
  obtain x y where xy: "scanDive E W ph child (path_Join path n) (depth + 1) s = (x, y)"
    by (cases "scanDive E W ph child (path_Join path n) (depth + 1) s")
  let ?y = "case x of None \<Rightarrow> y | Some rc \<Rightarrow> emit (EvWarn rc) y"
  have ry: "Library.absPath (lib y) = root" "maxDepth (lib y) = lim"
    using scanDive_framed(1) [OF framed_instances(5), of E W ph child "path_Join path n" "depth + 1" s]
      scanDive_framed(1) [OF framed_instances(6), of E W ph child "path_Join path n" "depth + 1" s]
      xy r l by simp_all
  have wy: "storeWorks W y"
    using scanDive_storeWorks(1) [OF assms w, of ph child "path_Join path n" "depth + 1"] xy by simp
  have cy: "colOf ?y = colOf y" by (cases x) simp_all
  have py: "Library.absPath (lib ?y) = root \<and> maxDepth (lib ?y) = lim \<and> storeWorks W ?y"
    using ry wy by (cases x) simp_all
  have fin: "scanEntries E W ph ((n, child) # dirName) path depth s =
      scanEntries E W ph dirName path depth ?y"
    using xy by simp
  have a: "\<forall>(q, fi) \<in> set (reached E root lim child (path_Join path n) (depth + 1)). \<forall>c k.
             collectionOf E q = Some (c, k) \<longrightarrow> 0 < countPath (colOf y c k) q"
    using 3(1) [OF 3(3)] xy by simp
  have b: "\<forall>(q, fi) \<in> set (reachedIn E root lim dirName path depth). \<forall>c k.
             collectionOf E q = Some (c, k) \<longrightarrow>
             0 < countPath (colOf (scanEntries E W ph dirName path depth ?y) c k) q"
    using 3(2) [OF xy [symmetric] py] .
  have m: "1 \<le> countPath (colOf y c k) q \<Longrightarrow>
      1 \<le> countPath (colOf (scanEntries E W ph dirName path depth ?y) c k) q" for c k q
    using scanDive_mono(2) [OF assms, of W ?y 1 c k q ph dirName path depth] py cy by simp
  show ?case
    unfolding fin using a b m by (auto simp: Suc_le_eq)
qed

text \<open>A pass over files that are all in their collections leaves the database as it is.\<close>

lemma db_emit_eq [simp]: "db (lib (case x of None \<Rightarrow> y | Some rc \<Rightarrow> emit (EvWarn rc) y)) = db (lib y)"
  by (cases x) simp_all

lemma scanDive_same:
  assumes "rangeVisitsAll E"
  shows "Library.absPath (lib s) = root \<and> maxDepth (lib s) = lim \<and> storeWorks W s \<and>
           (\<forall>(q, fi) \<in> set (reached E root lim node path depth). \<forall>c k.
              collectionOf E q = Some (c, k) \<longrightarrow> 0 < countPath (colOf s c k) q) \<Longrightarrow>
           db (lib (snd (scanDive E W ph node path depth s))) = db (lib s)"
    and "Library.absPath (lib s) = root \<and> maxDepth (lib s) = lim \<and> storeWorks W s \<and>
           (\<forall>(q, fi) \<in> set (reachedIn E root lim ents path depth). \<forall>c k.
              collectionOf E q = Some (c, k) \<longrightarrow> 0 < countPath (colOf s c k) q) \<Longrightarrow>
           db (lib (scanEntries E W ph ents path depth s)) = db (lib s)"
proof (induction node path depth s and ents path depth s rule: scanDive_induct [where E = E and W = W and ph = ph])
  case (1 st ents path depth s)
  then have r: "Library.absPath (lib s) = root" and l: "maxDepth (lib s) = lim"
    and w: "storeWorks W s"
    and c: "\<forall>(q, fi) \<in> set (reached E root lim (Node st ents) path depth). \<forall>c k.
              collectionOf E q = Some (c, k) \<longrightarrow> 0 < countPath (colOf s c k) q"
    by simp_all
  show ?case
  proof (cases rule: scanDive_cases [of E s path W ph st ents depth])
    case noRel
    then show ?thesis by simp
  next
    case (noStat rel)
    then show ?thesis by simp
  next
    case (deep rel fi)
    then show ?thesis by simp
  next
    case (noOpen rel fi)
    then show ?thesis by simp
  next
    case (dir rel fi dirName)
    have rd: "reached E root lim (Node st ents) path depth = reachedIn E root lim dirName path depth"
      using dir r l by auto
    have "\<forall>(q, fi) \<in> set (reachedIn E root lim dirName path depth). \<forall>c k.
              collectionOf E q = Some (c, k) \<longrightarrow> 0 < countPath (colOf s c k) q"
      using c unfolding rd .
    then have "db (lib (scanEntries E W ph dirName path depth
                   (emit (EvOpenDir path) (emit (EvLstat path depth) s)))) = db (lib s)"
      using 1(1) [OF dir(1,2,3,4,5)] r l w by simp
    then show ?thesis using dir by simp
  next
    case (special rel fi)
    then show ?thesis by simp
  next
    case (regular rel fi)
    have w1: "storeWorks W (emit (EvLstat path depth) s)" using w by simp
    have "\<And>c k. collectionOf E path = Some (c, k) \<Longrightarrow>
        0 < countPath (colOf (emit (EvLstat path depth) s) c k) path"
      using c regular r by simp
    from scanFile_same [OF assms w1 this, of ph rel fi]
    show ?thesis using regular by simp
  qed
next
  case (2 path depth s)
  then show ?case by simp
next
  case (3 n child dirName path depth s)
  then have r: "Library.absPath (lib s) = root" and l: "maxDepth (lib s) = lim"
    and w: "storeWorks W s"
    and c1: "\<forall>(q, fi) \<in> set (reached E root lim child (path_Join path n) (depth + 1)). \<forall>c k.
              collectionOf E q = Some (c, k) \<longrightarrow> 0 < countPath (colOf s c k) q"
    and c2: "\<forall>(q, fi) \<in> set (reachedIn E root lim dirName path depth). \<forall>c k.
              collectionOf E q = Some (c, k) \<longrightarrow> 0 < countPath (colOf s c k) q"
    by auto
  obtain x y where xy: "scanDive E W ph child (path_Join path n) (depth + 1) s = (x, y)"
    by (cases "scanDive E W ph child (path_Join path n) (depth + 1) s")
  let ?y = "case x of None \<Rightarrow> y | Some rc \<Rightarrow> emit (EvWarn rc) y"
  have ry: "Library.absPath (lib y) = root" "maxDepth (lib y) = lim"
    using scanDive_framed(1) [OF framed_instances(5), of E W ph child "path_Join path n" "depth + 1" s]
      scanDive_framed(1) [OF framed_instances(6), of E W ph child "path_Join path n" "depth + 1" s]
      xy r l by simp_all
  have dy: "db (lib y) = db (lib s)"
    using 3(1) r l w c1 xy by simp
  then have dy': "db (lib ?y) = db (lib s)" by simp
  have cy: "colOf ?y = colOf s" using colOf_db [OF dy'] .
  have py: "Library.absPath (lib ?y) = root \<and> maxDepth (lib ?y) = lim \<and> storeWorks W ?y \<and>
      (\<forall>(q, fi) \<in> set (reachedIn E root lim dirName path depth). \<forall>c k.
          collectionOf E q = Some (c, k) \<longrightarrow> 0 < countPath (colOf ?y c k) q)"
    using ry w c2 storeWorks_colOf [OF cy, of W] unfolding cy by (cases x) simp_all
  have fin: "scanEntries E W ph ((n, child) # dirName) path depth s =
      scanEntries E W ph dirName path depth ?y"
    using xy by simp
  show ?case
    unfolding fin using 3(2) [OF xy [symmetric] py] dy' by simp
qed

text \<open>
  C3, as stated, fails for a file that the traversal does not reach. In a library with
  \<^verbatim>\<open>maxDepth = 1\<close> the regular file \<^verbatim>\<open>/lib/sub/a.mp3\<close> lies under the root and its extension
  is in the audio table, but the directory \<^verbatim>\<open>/lib/sub\<close> is met at depth 2 and refused with
  \<^verbatim>\<open>rcDirDepth\<close>, which its parent logs as a warning: the pass and the whole \<^verbatim>\<open>scan()\<close> end
  without error, and the audio collection holds no record with that path.
\<close>

theorem file_beyond_limit_is_not_indexed:
  "maxDepth (lib (testState 1 True)) = 1 \<and>
   collectionOf testEnv ''/lib/sub/a.mp3'' = Some (ecMedia, mkAudio) \<and>
   fst (scanDive testEnv testWorld None deepTree ''/lib'' 1 (testState 1 True)) = None \<and>
   countPath (colOf (snd (scanDive testEnv testWorld None deepTree ''/lib'' 1 (testState 1 True)))
                ecMedia mkAudio) ''/lib/sub/a.mp3'' = 0 \<and>
   errorAfter (scan testEnv testWorld None deepTree (testState 1 True)) = Some None \<and>
   countPath (colOf (snd (scan testEnv testWorld None deepTree (testState 1 True)))
                ecMedia mkAudio) ''/lib/sub/a.mp3'' = 0"
  by (simp add: countPath_def collectionOf_def inTable_def errorAfter_def scan_def scanDone_def
      busyDec_def trySend_def maxLibraryScanners_def recandidateSubtitles_def
      totalRecords_def scanDive.simps eval_defs)

text \<open>
  C3, amended. Let the store work (the three collections accept inserts and are indexed on
  the path, \<^verbatim>\<open>toRecord()\<close> returns no error), let the maps be visited entry by entry, and
  let no collection hold two records with the same path. Then after a pass of \<^verbatim>\<open>scanDive\<close>
  (\<^verbatim>\<open>scan()\<close> starts it on the root at depth 1), for every regular file that the pass
  reaches (\<^verbatim>\<open>filepath.Rel\<close> and \<^verbatim>\<open>os.Lstat\<close> succeed on it, and it lies below directories that
  could be listed and were not beyond the depth limit) and whose lower-cased extension is in
  a table, the collection of its class and kind holds exactly one record whose path field
  is the absolute path of the file; and a second pass over the same tree, with any handler,
  leaves the database as the first pass left it: no record is inserted and no scan count
  is raised.
\<close>

theorem scan_pass_indexes_once:
  assumes "rangeVisitsAll E" and "storeWorks W s" and "uniquePaths s"
  shows "(\<forall>(q, fi) \<in> set (reached E (Library.absPath (lib s)) (maxDepth (lib s)) node path depth).
            \<forall>c k. collectionOf E q = Some (c, k) \<longrightarrow>
              countPath (colOf (snd (scanDive E W ph node path depth s)) c k) q = 1) \<and>
         db (lib (snd (scanDive E W ph' node path depth (snd (scanDive E W ph node path depth s))))) =
           db (lib (snd (scanDive E W ph node path depth s)))"
proof -
  let ?s1 = "snd (scanDive E W ph node path depth s)"
  let ?root = "Library.absPath (lib s)"
  let ?lim = "maxDepth (lib s)"
  have cov: "\<forall>(q, fi) \<in> set (reached E ?root ?lim node path depth). \<forall>c k.
             collectionOf E q = Some (c, k) \<longrightarrow> 0 < countPath (colOf ?s1 c k) q"
    using scanDive_covers(1) [OF assms(1), of s ?root ?lim W node path depth ph] assms(2) by simp
  have u: "storeWorks W ?s1" "uniquePaths ?s1"
    using scanDive_unique(1) [OF assms(1), of W s ph node path depth] assms(2,3) by simp_all
  have le: "countPath (colOf ?s1 c k) q \<le> 1" for c k q
    using u(2) by (simp add: uniquePaths_def)
  have one: "\<forall>(q, fi) \<in> set (reached E ?root ?lim node path depth). \<forall>c k.
             collectionOf E q = Some (c, k) \<longrightarrow> countPath (colOf ?s1 c k) q = 1"
  proof (intro ballI allI impI, clarify)
    fix q fi c k
    assume "(q, fi) \<in> set (reached E ?root ?lim node path depth)" "collectionOf E q = Some (c, k)"
    then have "0 < countPath (colOf ?s1 c k) q" using cov by auto
    then show "countPath (colOf ?s1 c k) q = 1" using le [of c k q] by simp
  qed
  have f: "Library.absPath (lib ?s1) = ?root" "maxDepth (lib ?s1) = ?lim"
    using scanDive_framed(1) [OF framed_instances(5), of E W ph node path depth s]
      scanDive_framed(1) [OF framed_instances(6), of E W ph node path depth s] by simp_all
  have same: "db (lib (snd (scanDive E W ph' node path depth ?s1))) = db (lib ?s1)"
    using scanDive_same(1) [OF assms(1), of ?s1 ?root ?lim W node path depth ph'] f u(1) cov
    by simp
  from one same show ?thesis by simp
qed

text \<open>
  The amended statement on the library \<^verbatim>\<open>/lib\<close> without depth limit, holding \<^verbatim>\<open>a.mp3\<close>,
  with an empty index.
\<close>

theorem scan_pass_indexes_once_witness:
  "rangeVisitsAll testEnv \<and> storeWorks testWorld (testState 0 True) \<and> uniquePaths (testState 0 True) \<and>
   reached testEnv ''/lib'' 0 flatTree ''/lib'' 1 = [(''/lib/a.mp3'', fileInfo ''a.mp3'')] \<and>
   collectionOf testEnv ''/lib/a.mp3'' = Some (ecMedia, mkAudio) \<and>
   countPath (colOf (snd (scanDive testEnv testWorld None flatTree ''/lib'' 1 (testState 0 True)))
                ecMedia mkAudio) ''/lib/a.mp3'' = 1 \<and>
   db (lib (snd (scanDive testEnv testWorld None flatTree ''/lib'' 1
                  (snd (scanDive testEnv testWorld None flatTree ''/lib'' 1 (testState 0 True)))))) =
     db (lib (snd (scanDive testEnv testWorld None flatTree ''/lib'' 1 (testState 0 True))))"
proof -
  have v: "rangeVisitsAll testEnv"
    by (rule rangeVisitsAll_testEnv)
  have w: "storeWorks testWorld (testState 0 True)"
    by (simp add: storeWorks_def testWorld_def testState_def testLib_def emptyDb_def emptyCol_def
        colOf_def)
  have u: "uniquePaths (testState 0 True)"
    by (simp add: uniquePaths_def countPath_def testState_def testLib_def emptyDb_def emptyCol_def
        colOf_def)
  have ap: "Library.absPath (lib (testState 0 True)) = ''/lib''"
    and md: "maxDepth (lib (testState 0 True)) = 0"
    by (simp_all add: testState_def testLib_def)
  have r: "reached testEnv ''/lib'' 0 flatTree ''/lib'' 1 = [(''/lib/a.mp3'', fileInfo ''a.mp3'')]"
    by (simp add: flatTree_def fileNode_def dirInfo_def fileInfo_def testEnv_def filepath_Rel_def
        elements_def rooted_def path_Join_def regularMode_def ModeDir_def ModeSymlink_def
        ModeDevice_def ModeNamedPipe_def ModeSocket_def ModeCharDevice_def depthUnlimited_def)
  have c: "collectionOf testEnv ''/lib/a.mp3'' = Some (ecMedia, mkAudio)"
    by (simp add: collectionOf_def inTable_def path_Ext_def testEnv_def asciiLower_def audioTable_def)
  note t = scan_pass_indexes_once [OF v w u, of flatTree "''/lib''" 1 None None, unfolded ap md r]
  from v w u r c t show ?thesis
    by simp
qed

end
